theory Spec2Isabelle
  imports Complex_Main "HOL-Library.Char_ord" "HOL-Library.List_Lexorder"
begin

section \<open>Values, errors and column arithmetic\<close>

text \<open>
  The pipeline of \<^verbatim>\<open>GetSeasonData.py\<close> works on pandas tables whose numeric cells are
  floats. A float cell is modelled as a \<open>real option\<close>: \<open>None\<close> is the missing value
  (pandas' NaN / NaT / None of a numeric column, which pandas itself does not tell apart),
  \<open>Some x\<close> a number, with exact real arithmetic in place of rounding. Arithmetic
  propagates the missing value, reductions (\<open>mean\<close>, \<open>min\<close>, \<open>max\<close>, \<open>sum\<close>) skip it, as
  pandas does by default.
\<close>

datatype py_error = DataUnavailable | IndexError | KeyError | ValueError

type_synonym num = "real option"

definition fadd :: "num \<Rightarrow> num \<Rightarrow> num" where
  "fadd a b = (case (a, b) of (Some x, Some y) \<Rightarrow> Some (x + y) | _ \<Rightarrow> None)"

definition fsub :: "num \<Rightarrow> num \<Rightarrow> num" where
  "fsub a b = (case (a, b) of (Some x, Some y) \<Rightarrow> Some (x - y) | _ \<Rightarrow> None)"

definition fmul :: "num \<Rightarrow> num \<Rightarrow> num" where
  "fmul a b = (case (a, b) of (Some x, Some y) \<Rightarrow> Some (x * y) | _ \<Rightarrow> None)"

definition fillna :: "num \<Rightarrow> num \<Rightarrow> num" where
  "fillna a b = (case a of None \<Rightarrow> b | Some x \<Rightarrow> Some x)"

definition dropna :: "num list \<Rightarrow> real list" where
  "dropna xs = concat (map (\<lambda>v. case v of None \<Rightarrow> [] | Some x \<Rightarrow> [x]) xs)"

fun min_list_real :: "real list \<Rightarrow> real" where
  "min_list_real [] = 0"
| "min_list_real [x] = x"
| "min_list_real (x # y # ys) = min x (min_list_real (y # ys))"

fun max_list_real :: "real list \<Rightarrow> real" where
  "max_list_real [] = 0"
| "max_list_real [x] = x"
| "max_list_real (x # y # ys) = max x (max_list_real (y # ys))"

text \<open>\<^verbatim>\<open>Series.min()\<close>, \<^verbatim>\<open>Series.max()\<close>, \<^verbatim>\<open>Series.mean()\<close>: missing values are skipped, and
  the result is missing when nothing is left.\<close>

definition series_min :: "num list \<Rightarrow> num" where
  "series_min xs = (if dropna xs = [] then None else Some (min_list_real (dropna xs)))"

definition series_max :: "num list \<Rightarrow> num" where
  "series_max xs = (if dropna xs = [] then None else Some (max_list_real (dropna xs)))"

definition series_mean :: "num list \<Rightarrow> num" where
  "series_mean xs =
     (if dropna xs = [] then None
      else Some (sum_list (dropna xs) / real (length (dropna xs))))"

text \<open>Python's \<^verbatim>\<open>p in s\<close> on strings: \<open>p\<close> occurs in \<open>s\<close> as a contiguous block.\<close>

fun starts_with :: "string \<Rightarrow> string \<Rightarrow> bool" where
  "starts_with [] s = True"
| "starts_with (p # ps) [] = False"
| "starts_with (p # ps) (c # cs) = (p = c \<and> starts_with ps cs)"

fun str_in :: "string \<Rightarrow> string \<Rightarrow> bool" where
  "str_in p [] = (p = [])"
| "str_in p (c # cs) = (starts_with p (c # cs) \<or> str_in p cs)"

section \<open>Raw session data\<close>

text \<open>
  What \<^verbatim>\<open>fastf1\<close> hands over for a loaded session: the lap table and the result table.
  Only the columns the pipeline reads are kept. Whether a lap is a quick lap is decided
  by the library (\<^verbatim>\<open>pick_quicklaps\<close>); it is taken as a flag of the lap.
\<close>

record lap =
  Driver :: string
  LapNumber :: nat
  LapTime :: num
  IsQuick :: bool

record result_row =
  Abbreviation :: string
  Position :: num
  Status :: "string option"
  Time :: num
  Q1 :: num
  Q2 :: num
  Q3 :: num

record session =
  laps :: "lap list"
  results :: "result_row list"

definition pick_quicklaps :: "lap list \<Rightarrow> lap list" where
  "pick_quicklaps ls = filter IsQuick ls"

section \<open>The race extractor: status, winner time, reconstructed race time\<close>

text \<open>\<^verbatim>\<open>str(s)\<close> of a status cell; a missing status prints as \<^verbatim>\<open>nan\<close>.\<close>

definition py_str :: "string option \<Rightarrow> string" where
  "py_str s = (case s of None \<Rightarrow> ''nan'' | Some t \<Rightarrow> t)"

definition simplify_status :: "string option \<Rightarrow> string" where
  "simplify_status s =
     (if str_in ''Finished'' (py_str s) then ''Finished''
      else if str_in ''Lap'' (py_str s) then ''Lapped''
      else ''DNF'')"

definition DNF_Dummy :: "result_row \<Rightarrow> int" where
  "DNF_Dummy r = (if Time r = None then 1 else 0)"

text \<open>\<^verbatim>\<open>results.loc[results["FinishingPosition"] == 1, "Time"].values[0]\<close>: the first
  element of the selection, an \<^verbatim>\<open>IndexError\<close> when the selection is empty.\<close>

definition winner_time :: "result_row list \<Rightarrow> py_error + num" where
  "winner_time rs =
     (case filter (\<lambda>r. Position r = Some 1) rs of
        [] \<Rightarrow> Inl IndexError
      | r # _ \<Rightarrow> Inr (Time r))"

definition completed_laps :: "lap list \<Rightarrow> string \<Rightarrow> nat" where
  "completed_laps ls d = length (filter (\<lambda>l. Driver l = d) ls)"

definition total_laps :: "lap list \<Rightarrow> num" where
  "total_laps ls = series_max (map (\<lambda>l. Some (real (LapNumber l))) ls)"

definition avg_quicklap :: "lap list \<Rightarrow> string \<Rightarrow> num" where
  "avg_quicklap qs d = series_mean (map LapTime (filter (\<lambda>l. Driver l = d) qs))"

definition base_time :: "num \<Rightarrow> result_row \<Rightarrow> num" where
  "base_time wt r = (if Position r \<noteq> Some 1 then fadd wt (Time r) else wt)"

definition compute_racetime :: "lap list \<Rightarrow> lap list \<Rightarrow> num \<Rightarrow> result_row \<Rightarrow> num" where
  "compute_racetime ls qs wt r =
     (if DNF_Dummy r = 1 then None
      else
        let driver = Abbreviation r;
            missing_laps = fsub (total_laps ls) (Some (real (completed_laps ls driver)));
            avg = avg_quicklap qs driver;
            base = base_time wt r
        in if str_in ''Lap'' (py_str (Status r))
           then fadd base (fmul avg missing_laps)
           else base)"

section \<open>Tables\<close>

text \<open>
  A pandas table of the pipeline always carries the key column \<^verbatim>\<open>Driver\<close>, a string that
  is never missing; every merge is on that key. A row is the driver with the cells of the
  other columns, a table the list of those column names with the rows in order. The
  placeholder \<^verbatim>\<open>pd.DataFrame(columns=["Driver"])\<close> is the table without columns and rows.
\<close>

datatype cell = NA | Num real | Str string

type_synonym row = "string \<times> (string \<times> cell) list"

record frame =
  cols :: "string list"
  rows :: "row list"

definition num_cell :: "num \<Rightarrow> cell" where
  "num_cell v = (case v of None \<Rightarrow> NA | Some x \<Rightarrow> Num x)"

definition cell_num :: "cell \<Rightarrow> num" where
  "cell_num c = (case c of Num x \<Rightarrow> Some x | _ \<Rightarrow> None)"

definition cell_at :: "row \<Rightarrow> string \<Rightarrow> cell" where
  "cell_at r c = (case map_of (snd r) c of None \<Rightarrow> NA | Some v \<Rightarrow> v)"

definition placeholder :: frame where
  "placeholder = \<lparr>cols = [], rows = []\<rparr>"

text \<open>\<^verbatim>\<open>df.empty\<close>: the key column is always there, so a table is empty when it has no row.\<close>

definition is_empty :: "frame \<Rightarrow> bool" where
  "is_empty f = (rows f = [])"

definition drivers_of :: "frame \<Rightarrow> string list" where
  "drivers_of f = map fst (rows f)"

definition na_fill :: "string list \<Rightarrow> (string \<times> cell) list" where
  "na_fill cs = map (\<lambda>c. (c, NA)) cs"

definition rows_of :: "frame \<Rightarrow> string \<Rightarrow> (string \<times> cell) list list" where
  "rows_of f d = map snd (filter (\<lambda>r. fst r = d) (rows f))"

text \<open>\<^verbatim>\<open>left.merge(right, on="Driver", how="outer")\<close>: the keys of both sides in
  lexicographic order; under a key every left row meets every right row, and a side
  without the key is filled with missing values. No two tables merged by the pipeline
  share a column other than the key.\<close>

definition merge_outer :: "frame \<Rightarrow> frame \<Rightarrow> frame" where
  "merge_outer l r =
     \<lparr>cols = cols l @ cols r,
      rows = concat (map (\<lambda>k.
               let ls = rows_of l k; rs = rows_of r k
               in if rs = [] then map (\<lambda>a. (k, a @ na_fill (cols r))) ls
                  else if ls = [] then map (\<lambda>b. (k, na_fill (cols l) @ b)) rs
                  else concat (map (\<lambda>a. map (\<lambda>b. (k, a @ b)) rs) ls))
             (sort (remdups (drivers_of l @ drivers_of r))))\<rparr>"

text \<open>Notions for the merge policy. A table is well formed when every row has exactly
  the table's columns. Under a key, a merge takes from one side either a row of that key
  or, when the side has no such row, the filling with missing values. A row of a merged
  table carries a table \<open>f\<close> when, for a driver of \<open>f\<close>, its cells in the columns of \<open>f\<close>
  are those of one of the driver's rows of \<open>f\<close>, and for any other driver they are all
  missing. A table extends \<open>f\<close> when it has the columns and the drivers of \<open>f\<close> and all
  its rows carry \<open>f\<close>.\<close>

definition wf_frame :: "frame \<Rightarrow> bool" where
  "wf_frame f = (\<forall>row\<in>set (rows f). map fst (snd row) = cols f)"

definition side_of :: "frame \<Rightarrow> string \<Rightarrow> (string \<times> cell) list \<Rightarrow> bool" where
  "side_of f k a =
     (if k \<in> set (drivers_of f) then (k, a) \<in> set (rows f) else a = na_fill (cols f))"

definition carries :: "frame \<Rightarrow> row \<Rightarrow> bool" where
  "carries f row =
     (if fst row \<in> set (drivers_of f)
      then \<exists>r\<in>set (rows f). fst r = fst row \<and> (\<forall>c\<in>set (cols f). cell_at row c = cell_at r c)
      else \<forall>c\<in>set (cols f). cell_at row c = NA)"

definition extends :: "frame \<Rightarrow> frame \<Rightarrow> bool" where
  "extends X f =
     (set (cols f) \<subseteq> set (cols X) \<and> set (drivers_of f) \<subseteq> set (drivers_of X)
      \<and> (\<forall>row\<in>set (rows X). carries f row))"

text \<open>\<^verbatim>\<open>left.merge(right, on="Driver", how="left")\<close>: the left rows in their order.\<close>

definition merge_left :: "frame \<Rightarrow> frame \<Rightarrow> frame" where
  "merge_left l r =
     \<lparr>cols = cols l @ cols r,
      rows = concat (map (\<lambda>(k, a).
               let rs = rows_of r k
               in if rs = [] then [(k, a @ na_fill (cols r))]
                  else map (\<lambda>b. (k, a @ b)) rs)
             (rows l))\<rparr>"

text \<open>\<^verbatim>\<open>pd.concat(frames, ignore_index=True)\<close>: the union of the columns in order of first
  appearance, each row filled with missing values where its table had no such column;
  a \<^verbatim>\<open>ValueError\<close> on an empty list of tables.\<close>

definition union_cols :: "frame list \<Rightarrow> string list" where
  "union_cols fs = rev (remdups (rev (concat (map cols fs))))"

definition reindex_row :: "string list \<Rightarrow> row \<Rightarrow> row" where
  "reindex_row cs r = (fst r, map (\<lambda>c. (c, cell_at r c)) cs)"

definition pd_concat :: "frame list \<Rightarrow> py_error + frame" where
  "pd_concat fs =
     (if fs = [] then Inl ValueError
      else Inr \<lparr>cols = union_cols fs,
                rows = map (reindex_row (union_cols fs)) (concat (map rows fs))\<rparr>)"

text \<open>\<^verbatim>\<open>df[name] = value\<close> for a new column.\<close>

definition assign_col :: "string \<Rightarrow> (row \<Rightarrow> cell) \<Rightarrow> frame \<Rightarrow> frame" where
  "assign_col name v f =
     \<lparr>cols = cols f @ [name], rows = map (\<lambda>r. (fst r, snd r @ [(name, v r)])) (rows f)\<rparr>"

text \<open>\<^verbatim>\<open>sort_values\<close>, taken as a stable sort on a numeric key with the missing values
  last (pandas' default sort leaves the order of rows of equal key to its algorithm); \<^verbatim>\<open>rank(method="min")\<close>, ascending and descending; \<^verbatim>\<open>astype(int)\<close>, which raises on a
  missing value.\<close>

fun insort_by :: "('a \<Rightarrow> 'a \<Rightarrow> bool) \<Rightarrow> 'a \<Rightarrow> 'a list \<Rightarrow> 'a list" where
  "insort_by le x [] = [x]"
| "insort_by le x (y # ys) = (if le x y then x # y # ys else y # insort_by le x ys)"

definition sort_by :: "('a \<Rightarrow> 'a \<Rightarrow> bool) \<Rightarrow> 'a list \<Rightarrow> 'a list" where
  "sort_by le xs = foldr (insort_by le) xs []"

definition num_le :: "num \<Rightarrow> num \<Rightarrow> bool" where
  "num_le a b =
     (case b of None \<Rightarrow> True
      | Some y \<Rightarrow> (case a of None \<Rightarrow> False | Some x \<Rightarrow> x \<le> y))"

definition sort_values :: "string \<Rightarrow> frame \<Rightarrow> frame" where
  "sort_values c f =
     f\<lparr>rows := sort_by (\<lambda>r s. num_le (cell_num (cell_at r c)) (cell_num (cell_at s c))) (rows f)\<rparr>"

definition rank_min :: "num list \<Rightarrow> num list" where
  "rank_min xs =
     map (\<lambda>v. case v of None \<Rightarrow> None
               | Some x \<Rightarrow> Some (1 + real (length (filter (\<lambda>y. y < x) (dropna xs))))) xs"

definition rank_min_desc :: "num list \<Rightarrow> num list" where
  "rank_min_desc xs =
     map (\<lambda>v. case v of None \<Rightarrow> None
               | Some x \<Rightarrow> Some (1 + real (length (filter (\<lambda>y. x < y) (dropna xs))))) xs"

definition astype_int :: "num list \<Rightarrow> py_error + int list" where
  "astype_int xs =
     (if None \<in> set xs then Inl ValueError
      else Inr (map (\<lambda>v. case v of None \<Rightarrow> 0 | Some x \<Rightarrow> \<lfloor>x\<rfloor>) xs))"

text \<open>\<^verbatim>\<open>groupby("Driver")[col].mean()\<close>: one entry per driver, the drivers in
  lexicographic order.\<close>

definition groupby_mean :: "(string \<times> num) list \<Rightarrow> (string \<times> num) list" where
  "groupby_mean xs =
     map (\<lambda>d. (d, series_mean (map snd (filter (\<lambda>p. fst p = d) xs))))
         (sort (remdups (map fst xs)))"

section \<open>Session extractors\<close>

text \<open>
  \<^verbatim>\<open>get_fp_data\<close> on a loaded practice session. The laps without a time are dropped;
  per driver (in key order) the fastest lap is kept, the groups keeping their
  \<^verbatim>\<open>Driver\<close> column as under pandas 2. The left merge with the result table's
  \<^verbatim>\<open>Abbreviation\<close> column repeats a driver listed there more than once, and the
  assignment of the gap column then raises a \<^verbatim>\<open>ValueError\<close> for the length mismatch.
  A session without a timed lap gives the table with the three columns and no row.
\<close>

definition fastest_laps :: "lap list \<Rightarrow> (string \<times> real) list" where
  "fastest_laps ls =
     map (\<lambda>d. (d, min_list_real (dropna (map LapTime (filter (\<lambda>l. Driver l = d) ls)))))
         (sort (remdups (map Driver ls)))"

definition fp_gaps :: "(string \<times> real) list \<Rightarrow> num list" where
  "fp_gaps fl = map (\<lambda>p. fsub (Some (snd p)) (series_min (map (\<lambda>q. Some (snd q)) fl))) fl"

definition lookup_num :: "(string \<times> num) list \<Rightarrow> string \<Rightarrow> num" where
  "lookup_num xs d = (case map_of xs d of None \<Rightarrow> None | Some v \<Rightarrow> v)"

definition fp_row :: "string \<Rightarrow> (string \<times> num) list \<Rightarrow> string \<times> num \<times> int \<Rightarrow> row" where
  "fp_row fpsession racepacemean t =
     (case t of (d, g, p) \<Rightarrow>
        (d, [(''GapToFastest_'' @ fpsession, num_cell g),
             (''Position_'' @ fpsession, Num (of_int p)),
             (''RacePace_'' @ fpsession, num_cell (lookup_num racepacemean d))]))"

definition fp_cols :: "string \<Rightarrow> string list" where
  "fp_cols fpsession =
     [''GapToFastest_'' @ fpsession, ''Position_'' @ fpsession, ''RacePace_'' @ fpsession]"

definition get_fp_data :: "string \<Rightarrow> session \<Rightarrow> py_error + frame" where
  "get_fp_data fpsession s =
     (let ls = filter (\<lambda>l. LapTime l \<noteq> None) (laps s);
          fl = fastest_laps ls;
          merged = concat (map (\<lambda>p.
                     replicate (max 1 (length (filter (\<lambda>r. Abbreviation r = fst p) (results s))))
                               (fst p)) fl)
      in if length merged \<noteq> length fl then Inl ValueError
         else
           (case astype_int (rank_min (fp_gaps fl)) of
              Inl e \<Rightarrow> Inl e
            | Inr pos \<Rightarrow>
                let racepacemean =
                      groupby_mean (map (\<lambda>l. (Driver l, LapTime l)) (pick_quicklaps ls))
                in Inr (sort_values (''GapToFastest_'' @ fpsession)
                     \<lparr>cols = fp_cols fpsession,
                      rows = map (fp_row fpsession racepacemean)
                                 (zip merged (zip (fp_gaps fl) pos))\<rparr>)))"

text \<open>\<^verbatim>\<open>get_quali_data\<close>: the representative lap is the Q3 time, else Q2, else Q1; the
  pole time is the smallest Q3 time; the position is the recorded one.\<close>

definition QualiLap :: "result_row \<Rightarrow> num" where
  "QualiLap r = fillna (fillna (Q3 r) (Q2 r)) (Q1 r)"

definition pole_time :: "result_row list \<Rightarrow> num" where
  "pole_time rs = series_min (map Q3 rs)"

definition GapToPole :: "result_row list \<Rightarrow> result_row \<Rightarrow> num" where
  "GapToPole rs r = fsub (QualiLap r) (pole_time rs)"

definition quali_row :: "result_row list \<Rightarrow> result_row \<Rightarrow> row" where
  "quali_row rs r =
     (Abbreviation r,
      [(''Position_Quali'', num_cell (Position r)),
       (''QualiLap'', num_cell (QualiLap r)),
       (''GapToPole'', num_cell (GapToPole rs r))])"

definition quali_cols :: "string list" where
  "quali_cols = [''Position_Quali'', ''QualiLap'', ''GapToPole'']"

definition get_quali_data :: "session \<Rightarrow> frame" where
  "get_quali_data s =
     sort_values ''Position_Quali''
       \<lparr>cols = quali_cols, rows = map (quali_row (results s)) (results s)\<rparr>"

text \<open>\<^verbatim>\<open>get_race_data\<close>: mean pace over the quick laps per driver and its gap to the
  fastest mean pace, then the result rows with status, DNF indicator and reconstructed
  race time. The lookup of the winner's time comes before the rows are built and fails
  the whole extractor.\<close>

definition race_pace :: "lap list \<Rightarrow> (string \<times> num) list" where
  "race_pace ls = groupby_mean (map (\<lambda>l. (Driver l, LapTime l)) (pick_quicklaps ls))"

definition fastest_race_pace :: "lap list \<Rightarrow> num" where
  "fastest_race_pace ls = series_min (map snd (race_pace ls))"

definition GapToFastestRacePace :: "lap list \<Rightarrow> (string \<times> num) list" where
  "GapToFastestRacePace ls = map (\<lambda>p. (fst p, fsub (snd p) (fastest_race_pace ls))) (race_pace ls)"

definition status_cell :: "string option \<Rightarrow> cell" where
  "status_cell s = (case s of None \<Rightarrow> NA | Some t \<Rightarrow> Str t)"

definition race_row :: "lap list \<Rightarrow> num \<Rightarrow> result_row \<Rightarrow> row" where
  "race_row ls wt r =
     (Abbreviation r,
      [(''FinishingPosition'', num_cell (Position r)),
       (''Status'', status_cell (Status r)),
       (''DNF_Dummy'', Num (of_int (DNF_Dummy r))),
       (''FinishStatus'', Str (simplify_status (Status r))),
       (''RaceTime'', num_cell (compute_racetime ls (pick_quicklaps ls) wt r)),
       (''RacePace'', num_cell (lookup_num (race_pace ls) (Abbreviation r))),
       (''GapToFastestRacePace'',
          num_cell (lookup_num (GapToFastestRacePace ls) (Abbreviation r)))])"

definition race_cols :: "string list" where
  "race_cols = [''FinishingPosition'', ''Status'', ''DNF_Dummy'', ''FinishStatus'',
                ''RaceTime'', ''RacePace'', ''GapToFastestRacePace'']"

definition get_race_data :: "session \<Rightarrow> py_error + frame" where
  "get_race_data s =
     (case winner_time (results s) of
        Inl e \<Rightarrow> Inl e
      | Inr wt \<Rightarrow>
          Inr (sort_values ''FinishingPosition''
            \<lparr>cols = race_cols, rows = map (race_row (laps s) wt) (results s)\<rparr>))"

section \<open>Championship standings\<close>

text \<open>
  The results provider: the race schedule (the names of the rounds, in order), and per
  round the content of the race results and of the sprint results, each a list of tables
  of driver code and points; a sprint table comes with the round its description names.
  A fetch can fail.
\<close>

type_synonym points_table = "(string \<times> real) list"

record ergast =
  get_race_schedule :: "string list"
  get_race_results :: "nat \<Rightarrow> py_error + points_table list"
  get_sprint_results :: "nat \<Rightarrow> py_error + (nat \<times> points_table) list"

text \<open>The left merge of the race table with the sprint table on the driver code, and
  \<^verbatim>\<open>points_race + points_sprint.fillna(0)\<close>.\<close>

definition merge_sprint :: "points_table \<Rightarrow> points_table \<Rightarrow> points_table" where
  "merge_sprint race sprint =
     concat (map (\<lambda>(d, p).
       let ms = map snd (filter (\<lambda>q. fst q = d) sprint)
       in if ms = [] then [(d, p + 0)] else map (\<lambda>ps. (d, p + ps)) ms) race)"

definition round_points :: "ergast \<Rightarrow> nat \<Rightarrow> py_error + points_table" where
  "round_points e r =
     (case get_race_results e r of
        Inl err \<Rightarrow> Inl err
      | Inr content \<Rightarrow>
          (case content of
             [] \<Rightarrow> Inl IndexError
           | temp # _ \<Rightarrow>
               (case get_sprint_results e r of
                  Inl err \<Rightarrow> Inl err
                | Inr sprint \<Rightarrow>
                    (case sprint of
                       [] \<Rightarrow> Inr temp
                     | (rd, st) # _ \<Rightarrow>
                         if rd = r then Inr (merge_sprint temp st) else Inr temp))))"

text \<open>The loop over the schedule: round \<open>rnd + 1\<close> for the index \<open>rnd\<close>, left at the first
  round beyond the limit; the rows collected are (round, driver, points).\<close>

fun collect_rounds :: "ergast \<Rightarrow> nat list \<Rightarrow> py_error + (nat \<times> string \<times> real) list list" where
  "collect_rounds e [] = Inr []"
| "collect_rounds e (r # rs) =
     (case round_points e r of
        Inl err \<Rightarrow> Inl err
      | Inr t \<Rightarrow>
          (case collect_rounds e rs of
             Inl err \<Rightarrow> Inl err
           | Inr ts \<Rightarrow> Inr (map (\<lambda>(d, p). (r, d, p)) t # ts)))"

definition standings_rounds :: "ergast \<Rightarrow> nat \<Rightarrow> nat list" where
  "standings_rounds e round_limit =
     filter (\<lambda>r. r \<le> round_limit) [1 ..< Suc (length (get_race_schedule e))]"

definition total_points :: "(nat \<times> string \<times> real) list \<Rightarrow> string \<Rightarrow> real" where
  "total_points rs d = sum_list (map (\<lambda>(r, d', p). p) (filter (\<lambda>(r, d', p). d' = d) rs))"

text \<open>The pivot to one row per driver fails on a driver listed twice in a round; the
  row sum skips the rounds a driver has no entry in.\<close>

definition results_wide :: "(nat \<times> string \<times> real) list \<Rightarrow> (string \<times> real) list" where
  "results_wide rs =
     sort_by (\<lambda>a b. snd b \<le> snd a)
       (map (\<lambda>d. (d, total_points rs d)) (sort (remdups (map (\<lambda>(r, d, p). d) rs))))"

definition standings_row :: "(string \<times> real) \<times> int \<Rightarrow> row" where
  "standings_row t =
     (case t of ((d, pts), pos) \<Rightarrow>
        (d, [(''Points'', Num pts), (''ChampPosition'', Num (of_int pos))]))"

definition get_driver_standings :: "ergast \<Rightarrow> nat \<Rightarrow> py_error + frame" where
  "get_driver_standings e round_limit =
     (case collect_rounds e (standings_rounds e round_limit) of
        Inl err \<Rightarrow> Inl err
      | Inr ts \<Rightarrow>
          if ts = [] then Inl ValueError
          else
            let rs = concat ts
            in if \<not> distinct (map (\<lambda>(r, d, p). (d, r)) rs) then Inl ValueError
               else
                 let wide = results_wide rs
                 in (case astype_int (rank_min_desc (map (\<lambda>p. Some (snd p)) wide)) of
                       Inl err \<Rightarrow> Inl err
                     | Inr pos \<Rightarrow>
                         Inr (sort_values ''ChampPosition''
                           \<lparr>cols = [''Points'', ''ChampPosition''],
                            rows = map standings_row (zip wide pos)\<rparr>)))"






section \<open>The season pipeline\<close>

text \<open>
  The data source of one season: \<^verbatim>\<open>fastf1.get_session(season, round, kind)\<close> followed by
  \<^verbatim>\<open>load()\<close>, for the kinds \<^verbatim>\<open>FP1\<close>, \<^verbatim>\<open>FP2\<close>, \<^verbatim>\<open>FP3\<close>, \<^verbatim>\<open>Q\<close> and \<^verbatim>\<open>R\<close>, either fails or
  gives the loaded session; the results provider is the one of the standings. The round
  limit is a natural number: a limit below one gives the empty range of rounds.
\<close>

record source =
  get_session :: "nat \<Rightarrow> string \<Rightarrow> py_error + session"
  ergast_api :: ergast

definition mapTeams :: "(string \<times> string) list" where
  "mapTeams =
     [(''NOR'', ''McLaren''), (''PIA'', ''McLaren''),
      (''VER'', ''Red Bull''), (''TSU'', ''Red Bull''),
      (''HAM'', ''Ferrari''), (''LEC'', ''Ferrari''),
      (''RUS'', ''Mercedes''), (''ANT'', ''Mercedes''),
      (''ALB'', ''Williams''), (''SAI'', ''Williams''),
      (''STR'', ''Aston Martin''), (''ALO'', ''Aston Martin''),
      (''HAD'', ''Racing Bulls''), (''LAW'', ''Racing Bulls''),
      (''HUL'', ''Kick Sauber''), (''BOR'', ''Kick Sauber''),
      (''BEA'', ''Haas''), (''OCO'', ''Haas''),
      (''GAS'', ''Alpine''), (''COL'', ''Alpine'')]"

text \<open>The three practice sessions, each in its own \<^verbatim>\<open>try\<close>: a session that fails to load,
  or whose extractor raises, is left out of the list.\<close>

definition try_fp :: "source \<Rightarrow> nat \<Rightarrow> string \<Rightarrow> frame list" where
  "try_fp src rnd fp =
     (case get_session src rnd fp of
        Inl e \<Rightarrow> []
      | Inr s \<Rightarrow> (case get_fp_data fp s of Inl e \<Rightarrow> [] | Inr f \<Rightarrow> [f]))"

definition fp_data :: "source \<Rightarrow> nat \<Rightarrow> frame list" where
  "fp_data src rnd = concat (map (try_fp src rnd) [''FP1'', ''FP2'', ''FP3''])"

definition fp_merged :: "frame list \<Rightarrow> frame" where
  "fp_merged fs = (case fs of [] \<Rightarrow> placeholder | f # rest \<Rightarrow> foldl merge_outer f rest)"

definition quali_data :: "source \<Rightarrow> nat \<Rightarrow> frame" where
  "quali_data src rnd =
     (case get_session src rnd ''Q'' of Inl e \<Rightarrow> placeholder | Inr s \<Rightarrow> get_quali_data s)"

definition race_data :: "source \<Rightarrow> nat \<Rightarrow> frame" where
  "race_data src rnd =
     (case get_session src rnd ''R'' of
        Inl e \<Rightarrow> placeholder
      | Inr s \<Rightarrow> (case get_race_data s of Inl e \<Rightarrow> placeholder | Inr f \<Rightarrow> f))"

text \<open>The round's table: the race table, merged with the qualifying table and with the
  merged practice table unless they are empty, and tagged with the round.\<close>

definition with_quali :: "frame \<Rightarrow> frame \<Rightarrow> frame" where
  "with_quali race quali = (if \<not> is_empty quali then merge_outer race quali else race)"

definition assemble :: "frame \<Rightarrow> frame \<Rightarrow> frame \<Rightarrow> frame" where
  "assemble race quali fpm =
     (let rd = with_quali race quali
      in if \<not> is_empty fpm then merge_outer rd fpm else rd)"

definition round_data :: "source \<Rightarrow> nat \<Rightarrow> frame" where
  "round_data src rnd =
     assign_col ''Round'' (\<lambda>r. Num (real rnd))
       (assemble (race_data src rnd) (quali_data src rnd) (fp_merged (fp_data src rnd)))"

text \<open>The named aggregation over the season to date: the mean of eleven columns per
  driver. pandas raises a \<^verbatim>\<open>KeyError\<close> when one of the eleven is not a column of the table;
  this call is outside every \<^verbatim>\<open>try\<close>.\<close>

definition agg_spec :: "(string \<times> string) list" where
  "agg_spec =
     [(''AvgGapToPole'', ''GapToPole''),
      (''AvgFinishingPosition'', ''FinishingPosition''),
      (''AvgQualiPosition'', ''Position_Quali''),
      (''AvgFP1Position'', ''Position_FP1''),
      (''AvgFP2Position'', ''Position_FP2''),
      (''AvgFP3Position'', ''Position_FP3''),
      (''AvgGaptofastestRacePace'', ''GapToFastestRacePace''),
      (''DNFPercentage'', ''DNF_Dummy''),
      (''AvgFP1Gap'', ''GapToFastest_FP1''),
      (''AvgFP2Gap'', ''GapToFastest_FP2''),
      (''AvgFP3Gap'', ''GapToFastest_FP3'')]"

definition column_mean :: "frame \<Rightarrow> string \<Rightarrow> string \<Rightarrow> num" where
  "column_mean f d c =
     series_mean (map (\<lambda>r. cell_num (cell_at r c)) (filter (\<lambda>r. fst r = d) (rows f)))"

definition groupby_agg :: "frame \<Rightarrow> py_error + frame" where
  "groupby_agg f =
     (if \<not> list_all (\<lambda>p. snd p \<in> set (cols f)) agg_spec then Inl KeyError
      else Inr \<lparr>cols = map fst agg_spec,
                rows = map (\<lambda>d. (d, map (\<lambda>p. (fst p, num_cell (column_mean f d (snd p)))) agg_spec))
                           (sort (remdups (drivers_of f)))\<rparr>)"

definition team_cell :: "row \<Rightarrow> cell" where
  "team_cell r = (case map_of mapTeams (fst r) of None \<Rightarrow> NA | Some t \<Rightarrow> Str t)"

definition rolling_features :: "ergast \<Rightarrow> nat \<Rightarrow> frame \<Rightarrow> py_error + frame" where
  "rolling_features e rnd season_to_date =
     (if is_empty season_to_date then Inr placeholder
      else
        (case groupby_agg season_to_date of
           Inl err \<Rightarrow> Inl err
         | Inr rf \<Rightarrow>
             let rf = assign_col ''Team'' team_cell rf
             in (case get_driver_standings e rnd of
                   Inl err \<Rightarrow> Inr rf
                 | Inr standings \<Rightarrow> Inr (merge_left rf standings))))"

text \<open>The loop over the rounds, with its two growing lists as the state. An error of the
  body leaves the function: nothing is returned.\<close>

record loop_state =
  all_rounds :: "frame list"
  cumulative_data :: "frame list"

definition round_step :: "source \<Rightarrow> nat \<Rightarrow> loop_state \<Rightarrow> py_error + loop_state" where
  "round_step src rnd st =
     (let rd = round_data src rnd;
          cum = cumulative_data st @ [rd]
      in (case pd_concat cum of
            Inl err \<Rightarrow> Inl err
          | Inr season_to_date \<Rightarrow>
              (case rolling_features (ergast_api src) rnd season_to_date of
                 Inl err \<Rightarrow> Inl err
               | Inr rf \<Rightarrow>
                   let round_with_features = (if \<not> is_empty rf then merge_left rd rf else rd)
                   in Inr \<lparr>all_rounds = all_rounds st @ [round_with_features],
                           cumulative_data = cum\<rparr>)))"

fun run_rounds :: "source \<Rightarrow> nat list \<Rightarrow> loop_state \<Rightarrow> py_error + loop_state" where
  "run_rounds src [] st = Inr st"
| "run_rounds src (rnd # rnds) st =
     (case round_step src rnd st of
        Inl err \<Rightarrow> Inl err
      | Inr st' \<Rightarrow> run_rounds src rnds st')"

definition init_state :: loop_state where
  "init_state = \<lparr>all_rounds = [], cumulative_data = []\<rparr>"

definition season_rounds :: "source \<Rightarrow> nat \<Rightarrow> py_error + frame list" where
  "season_rounds src round_limit =
     (case run_rounds src [1 ..< Suc round_limit] init_state of
        Inl err \<Rightarrow> Inl err
      | Inr st \<Rightarrow> Inr (all_rounds st))"

definition get_season_data_with_features :: "source \<Rightarrow> nat \<Rightarrow> py_error + frame" where
  "get_season_data_with_features src round_limit =
     (case season_rounds src round_limit of
        Inl err \<Rightarrow> Inl err
      | Inr blocks \<Rightarrow> pd_concat blocks)"

text \<open>Two sources agree up to round \<open>N\<close> when they give the same sessions, the same
  first \<open>N\<close> entries of the schedule and the same race and sprint results for the rounds
  1 to \<open>N\<close>; beyond round \<open>N\<close> they are free to differ.\<close>

definition agree_upto :: "nat \<Rightarrow> source \<Rightarrow> source \<Rightarrow> bool" where
  "agree_upto N a b =
     ((\<forall>r k. 1 \<le> r \<and> r \<le> N \<longrightarrow> get_session a r k = get_session b r k)
    \<and> take N (get_race_schedule (ergast_api a)) = take N (get_race_schedule (ergast_api b))
    \<and> (\<forall>r. 1 \<le> r \<and> r \<le> N \<longrightarrow>
          get_race_results (ergast_api a) r = get_race_results (ergast_api b) r
        \<and> get_sprint_results (ergast_api a) r = get_sprint_results (ergast_api b) r))"

section \<open>Concrete sessions and seasons\<close>

text \<open>The race of the reconstruction scenario: 58 laps, driver \<open>CCC\<close> stops after 55 of
  them with a mean quick-lap pace of 92 seconds; the leader's time is 5400 seconds.\<close>

definition scenario_laps :: "lap list" where
  "scenario_laps =
     map (\<lambda>n. \<lparr>Driver = ''AAA'', LapNumber = n, LapTime = Some 93, IsQuick = True\<rparr>) [1 ..< 59] @
     map (\<lambda>n. \<lparr>Driver = ''BBB'', LapNumber = n, LapTime = Some 93, IsQuick = True\<rparr>) [1 ..< 59] @
     map (\<lambda>n. \<lparr>Driver = ''CCC'', LapNumber = n, LapTime = Some (if n = 1 then 120 else 92),
               IsQuick = (n \<noteq> 1)\<rparr>) [1 ..< 56]"

definition scenario_B :: result_row where
  "scenario_B = \<lparr>Abbreviation = ''BBB'', Position = Some 2, Status = Some ''Finished'',
                 Time = Some 20, Q1 = None, Q2 = None, Q3 = None\<rparr>"

definition scenario_C :: result_row where
  "scenario_C = \<lparr>Abbreviation = ''CCC'', Position = Some 3, Status = Some ''+1 Lap'',
                 Time = Some 95, Q1 = None, Q2 = None, Q3 = None\<rparr>"

text \<open>The same driver under a status text that holds both words.\<close>

definition scenario_C_both :: result_row where
  "scenario_C_both = \<lparr>Abbreviation = ''CCC'', Position = Some 3,
                      Status = Some ''Finished (+1 Lap)'',
                      Time = Some 95, Q1 = None, Q2 = None, Q3 = None\<rparr>"

text \<open>A practice session with two drivers tied for the fastest lap, a qualifying session
  whose second driver set a Q2 time below the pole time and no Q3 time, and a race with
  a lapped driver without a quick lap and a retired driver.\<close>

definition demo_fp :: session where
  "demo_fp =
     \<lparr>laps = [\<lparr>Driver = ''VER'', LapNumber = 1, LapTime = Some 10, IsQuick = True\<rparr>,
              \<lparr>Driver = ''VER'', LapNumber = 2, LapTime = None, IsQuick = False\<rparr>,
              \<lparr>Driver = ''NOR'', LapNumber = 1, LapTime = Some 11, IsQuick = False\<rparr>,
              \<lparr>Driver = ''NOR'', LapNumber = 2, LapTime = Some 10, IsQuick = True\<rparr>,
              \<lparr>Driver = ''HAM'', LapNumber = 1, LapTime = Some (21 / 2), IsQuick = True\<rparr>],
      results = []\<rparr>"

definition demo_quali :: session where
  "demo_quali =
     \<lparr>laps = [],
      results = [\<lparr>Abbreviation = ''VER'', Position = Some 1, Status = None, Time = None,
                  Q1 = Some 80, Q2 = Some 79, Q3 = Some 78\<rparr>,
                 \<lparr>Abbreviation = ''NOR'', Position = Some 2, Status = None, Time = None,
                  Q1 = Some 81, Q2 = Some 77, Q3 = None\<rparr>]\<rparr>"

definition demo_race :: session where
  "demo_race =
     \<lparr>laps = [\<lparr>Driver = ''VER'', LapNumber = 1, LapTime = Some 90, IsQuick = True\<rparr>,
              \<lparr>Driver = ''VER'', LapNumber = 2, LapTime = Some 91, IsQuick = True\<rparr>,
              \<lparr>Driver = ''VER'', LapNumber = 3, LapTime = Some 92, IsQuick = True\<rparr>,
              \<lparr>Driver = ''NOR'', LapNumber = 1, LapTime = Some 92, IsQuick = True\<rparr>,
              \<lparr>Driver = ''NOR'', LapNumber = 2, LapTime = Some 93, IsQuick = True\<rparr>,
              \<lparr>Driver = ''NOR'', LapNumber = 3, LapTime = Some 94, IsQuick = True\<rparr>,
              \<lparr>Driver = ''HAM'', LapNumber = 1, LapTime = Some 120, IsQuick = False\<rparr>,
              \<lparr>Driver = ''HAM'', LapNumber = 2, LapTime = Some 125, IsQuick = False\<rparr>],
      results = [\<lparr>Abbreviation = ''VER'', Position = Some 1, Status = Some ''Finished'',
                  Time = Some 5400, Q1 = None, Q2 = None, Q3 = None\<rparr>,
                 \<lparr>Abbreviation = ''NOR'', Position = Some 2, Status = Some ''Finished'',
                  Time = Some 20, Q1 = None, Q2 = None, Q3 = None\<rparr>,
                 \<lparr>Abbreviation = ''HAM'', Position = Some 3, Status = Some ''+1 Lap'',
                  Time = Some 95, Q1 = None, Q2 = None, Q3 = None\<rparr>,
                 \<lparr>Abbreviation = ''STR'', Position = Some 4, Status = Some ''Retired'',
                  Time = None, Q1 = None, Q2 = None, Q3 = None\<rparr>]\<rparr>"

definition HAM_row :: result_row where
  "HAM_row = \<lparr>Abbreviation = ''HAM'', Position = Some 3, Status = Some ''+1 Lap'',
              Time = Some 95, Q1 = None, Q2 = None, Q3 = None\<rparr>"

text \<open>The same race with the winner's row left out of the results.\<close>

definition demo_race_no_winner :: session where
  "demo_race_no_winner = demo_race\<lparr>results := tl (results demo_race)\<rparr>"

text \<open>The season of the standings scenario: two rounds without a sprint, driver \<open>XXX\<close>
  scores 18 then 25, driver \<open>YYY\<close> 25 then 18. And a season of one round with a sprint
  in which the third driver has no result.\<close>

definition two_round_season :: ergast where
  "two_round_season =
     \<lparr>get_race_schedule = [''First Grand Prix'', ''Second Grand Prix''],
      get_race_results = (\<lambda>r. if r = 1 then Inr [[(''XXX'', 18), (''YYY'', 25)]]
                               else if r = 2 then Inr [[(''XXX'', 25), (''YYY'', 18)]]
                               else Inl DataUnavailable),
      get_sprint_results = (\<lambda>r. Inr [])\<rparr>"




text \<open>The results of a season of two rounds for the drivers of the sessions above, and
  sources of that season: one with every session of both rounds, one without the second
  practice session in any round, one without it in the second round only, and one whose
  second round has no session at all.\<close>

definition demo_results :: ergast where
  "demo_results =
     \<lparr>get_race_schedule = [''First Grand Prix'', ''Second Grand Prix''],
      get_race_results = (\<lambda>r. if r = 1 then Inr [[(''VER'', 25), (''NOR'', 18), (''HAM'', 15)]]
                               else if r = 2 then Inr [[(''NOR'', 25), (''VER'', 18), (''HAM'', 15)]]
                               else Inl DataUnavailable),
      get_sprint_results = (\<lambda>r. Inr [])\<rparr>"

definition demo_sessions :: "string \<Rightarrow> py_error + session" where
  "demo_sessions k =
     (if k = ''FP1'' \<or> k = ''FP2'' \<or> k = ''FP3'' then Inr demo_fp
      else if k = ''Q'' then Inr demo_quali
      else if k = ''R'' then Inr demo_race
      else Inl DataUnavailable)"

definition full_source :: source where
  "full_source =
     \<lparr>get_session = (\<lambda>r k. if r = 1 \<or> r = 2 then demo_sessions k else Inl DataUnavailable),
      ergast_api = demo_results\<rparr>"

definition no_fp2_source :: source where
  "no_fp2_source =
     \<lparr>get_session = (\<lambda>r k. if k = ''FP2'' then Inl DataUnavailable
                            else if r = 1 \<or> r = 2 then demo_sessions k
                            else Inl DataUnavailable),
      ergast_api = demo_results\<rparr>"

definition fp2_gap_source :: source where
  "fp2_gap_source =
     \<lparr>get_session = (\<lambda>r k. if r = 2 \<and> k = ''FP2'' then Inl DataUnavailable
                            else if r = 1 \<or> r = 2 then demo_sessions k
                            else Inl DataUnavailable),
      ergast_api = demo_results\<rparr>"

definition one_round_source :: source where
  "one_round_source =
     \<lparr>get_session = (\<lambda>r k. if r = 1 then demo_sessions k else Inl DataUnavailable),
      ergast_api = demo_results\<lparr>get_race_schedule := [''First Grand Prix''],
                                 get_race_results := (\<lambda>r. if r = 1 then get_race_results demo_results 1
                                                           else Inl DataUnavailable)\<rparr>\<rparr>"

section \<open>Lemmas on columns, sorting and reductions\<close>

lemma set_insort_by: "set (insort_by le x ys) = insert x (set ys)"
  by (induction ys) auto

lemma set_sort_by: "set (sort_by le xs) = set xs"
  by (induction xs) (auto simp: sort_by_def set_insort_by)

lemma rows_sort_values: "set (rows (sort_values c f)) = set (rows f)"
  by (simp add: sort_values_def set_sort_by)

lemma min_list_real_le: "x \<in> set xs \<Longrightarrow> min_list_real xs \<le> x"
  by (induction xs rule: min_list_real.induct) auto

lemma min_list_real_mem: "xs \<noteq> [] \<Longrightarrow> min_list_real xs \<in> set xs"
  by (induction xs rule: min_list_real.induct) (auto simp: min_def)

lemma set_dropna: "set (dropna xs) = {x. Some x \<in> set xs}"
  by (induction xs) (auto simp: dropna_def split: option.splits)

lemma series_min_le: "Some x \<in> set xs \<Longrightarrow> \<exists>m. series_min xs = Some m \<and> m \<le> x"
proof -
  assume a: "Some x \<in> set xs"
  then have mem: "x \<in> set (dropna xs)" by (simp add: set_dropna)
  then have "dropna xs \<noteq> []" by auto
  with mem show ?thesis by (simp add: series_min_def min_list_real_le)
qed

lemma series_min_mem: "series_min xs = Some m \<Longrightarrow> Some m \<in> set xs"
  using min_list_real_mem[of "dropna xs"]
  by (auto simp: series_min_def set_dropna split: if_splits)

lemma series_min_least: "series_min xs = Some m \<Longrightarrow> Some x \<in> set xs \<Longrightarrow> m \<le> x"
  using series_min_le[of x xs] by auto

lemma cols_sort_values: "cols (sort_values c f) = cols f"
  by (simp add: sort_values_def)

lemma lapped_has_lap: "simplify_status s = ''Lapped'' \<Longrightarrow> str_in ''Lap'' (py_str s)"
  by (auto simp: simplify_status_def split: if_splits)

lemma series_mean_Nil: "series_mean [] = None"
  by (simp add: series_mean_def dropna_def)

lemma series_mean_skip: "series_mean (None # xs) = series_mean xs"
  by (simp add: series_mean_def dropna_def)

lemma fadd_None: "fadd a None = None" "fadd None b = None"
  by (auto simp: fadd_def split: option.splits)

lemma fmul_None: "fmul None b = None"
  by (auto simp: fmul_def split: option.splits)

lemma cell_at_race_row_RaceTime:
  "cell_at (race_row ls wt r) ''RaceTime'' = num_cell (compute_racetime ls (pick_quicklaps ls) wt r)"
  by (simp add: race_row_def cell_at_def)

lemma fsub_Some: "fsub (Some a) (Some b) = Some (a - b)"
  by (simp add: fsub_def)

lemma num_cell_Num: "num_cell v = Num x \<longleftrightarrow> v = Some x"
  by (cases v) (simp_all add: num_cell_def)

section \<open>Reconstructed race times\<close>

lemma scenario_total_laps: "total_laps scenario_laps = Some 58"
  by code_simp

lemma scenario_completed_laps: "completed_laps scenario_laps ''CCC'' = 55"
  by code_simp

lemma scenario_avg_quicklap: "avg_quicklap (pick_quicklaps scenario_laps) ''CCC'' = Some 92"
  by code_simp

lemma scenario_C_both_status: "simplify_status (Status scenario_C_both) = ''Finished''"
  by code_simp

lemma scenario_C_both_racetime:
  "compute_racetime scenario_laps (pick_quicklaps scenario_laps) (Some 5400) scenario_C_both = Some 5771"
  by code_simp

lemma scenario_B_racetime:
  "compute_racetime scenario_laps (pick_quicklaps scenario_laps) (Some 5400) scenario_B = Some 5420"
  by code_simp

lemma scenario_C_racetime:
  "compute_racetime scenario_laps (pick_quicklaps scenario_laps) (Some 5400) scenario_C = Some 5771"
  by code_simp

text \<open>
  C2, as amended. For a driver with a recorded elapsed time: when the status classifies
  to Finished and does not itself contain \<^verbatim>\<open>Lap\<close>, the reconstructed time is the leader's
  time plus the driver's recorded gap, and the leader's time alone for the driver in
  position 1; when the status classifies to Lapped, the product of the driver's mean
  quick-lap pace and the missing laps is added to that, the missing laps being the
  highest lap number of the session minus the number of lap rows of the driver. In the
  scenario (leader 5400, 58 laps) the Finished driver with gap 20 gets 5420, and the
  \<^verbatim>\<open>+1 Lap\<close> driver with 55 laps, pace 92 and gap 95 gets 5771.
\<close>

theorem C2_racetime_reconstruction:
  "(Time r \<noteq> None \<and> simplify_status (Status r) = ''Finished''
      \<and> \<not> str_in ''Lap'' (py_str (Status r)) \<longrightarrow>
        compute_racetime ls qs wt r = (if Position r = Some 1 then wt else fadd wt (Time r)))
 \<and> (Time r \<noteq> None \<and> simplify_status (Status r) = ''Lapped'' \<longrightarrow>
        compute_racetime ls qs wt r =
          fadd (if Position r = Some 1 then wt else fadd wt (Time r))
               (fmul (avg_quicklap qs (Abbreviation r))
                     (fsub (total_laps ls) (Some (real (completed_laps ls (Abbreviation r)))))))
 \<and> compute_racetime scenario_laps (pick_quicklaps scenario_laps) (Some 5400) scenario_B = Some 5420
 \<and> compute_racetime scenario_laps (pick_quicklaps scenario_laps) (Some 5400) scenario_C = Some 5771"
proof (intro conjI impI)
  assume "Time r \<noteq> None \<and> simplify_status (Status r) = ''Finished''
      \<and> \<not> str_in ''Lap'' (py_str (Status r))"
  then show "compute_racetime ls qs wt r = (if Position r = Some 1 then wt else fadd wt (Time r))"
    by (auto simp: compute_racetime_def DNF_Dummy_def base_time_def Let_def)
next
  assume a: "Time r \<noteq> None \<and> simplify_status (Status r) = ''Lapped''"
  then have "str_in ''Lap'' (py_str (Status r))" by (simp add: lapped_has_lap)
  with a show "compute_racetime ls qs wt r =
          fadd (if Position r = Some 1 then wt else fadd wt (Time r))
               (fmul (avg_quicklap qs (Abbreviation r))
                     (fsub (total_laps ls) (Some (real (completed_laps ls (Abbreviation r))))))"
    by (auto simp: compute_racetime_def DNF_Dummy_def base_time_def Let_def)
qed (rule scenario_B_racetime scenario_C_racetime)+

theorem C2_racetime_reconstruction_witness:
  "Time scenario_C \<noteq> None \<and> simplify_status (Status scenario_C) = ''Lapped''
 \<and> compute_racetime scenario_laps (pick_quicklaps scenario_laps) (Some 5400) scenario_C =
     fadd (fadd (Some 5400) (Some 95)) (fmul (Some 92) (fsub (Some 58) (Some 55)))"
proof -
  have h: "Time scenario_C \<noteq> None \<and> simplify_status (Status scenario_C) = ''Lapped''"
    by code_simp
  have c: "Position scenario_C \<noteq> Some 1" "Time scenario_C = Some 95"
    "Abbreviation scenario_C = ''CCC''"
    by (simp_all add: scenario_C_def)
  from h C2_racetime_reconstruction
         [of scenario_C scenario_laps "pick_quicklaps scenario_laps" "Some 5400"]
  show ?thesis
    by (simp only: c scenario_total_laps scenario_completed_laps scenario_avg_quicklap
                   if_False simp_thms) simp
qed

theorem C2_counterexample:
  "Time scenario_C_both = Some 95
 \<and> simplify_status (Status scenario_C_both) = ''Finished''
 \<and> fadd (Some 5400) (Time scenario_C_both) = Some 5495
 \<and> compute_racetime scenario_laps (pick_quicklaps scenario_laps) (Some 5400) scenario_C_both
     = Some 5771"
  by (simp add: scenario_C_both_status scenario_C_both_racetime)
     (simp add: scenario_C_both_def fadd_def)

lemma demo_race_eval:
  "get_race_data demo_race =
     Inr \<lparr>cols = [''FinishingPosition'', ''Status'', ''DNF_Dummy'', ''FinishStatus'',
                  ''RaceTime'', ''RacePace'', ''GapToFastestRacePace''],
          rows =
            [(''VER'', [(''FinishingPosition'', Num 1), (''Status'', Str ''Finished''),
                        (''DNF_Dummy'', Num 0), (''FinishStatus'', Str ''Finished''),
                        (''RaceTime'', Num 5400), (''RacePace'', Num 91),
                        (''GapToFastestRacePace'', Num 0)]),
             (''NOR'', [(''FinishingPosition'', Num 2), (''Status'', Str ''Finished''),
                        (''DNF_Dummy'', Num 0), (''FinishStatus'', Str ''Finished''),
                        (''RaceTime'', Num 5420), (''RacePace'', Num 93),
                        (''GapToFastestRacePace'', Num 2)]),
             (''HAM'', [(''FinishingPosition'', Num 3), (''Status'', Str ''+1 Lap''),
                        (''DNF_Dummy'', Num 0), (''FinishStatus'', Str ''Lapped''),
                        (''RaceTime'', NA), (''RacePace'', NA),
                        (''GapToFastestRacePace'', NA)]),
             (''STR'', [(''FinishingPosition'', Num 4), (''Status'', Str ''Retired''),
                        (''DNF_Dummy'', Num 1), (''FinishStatus'', Str ''DNF''),
                        (''RaceTime'', NA), (''RacePace'', NA),
                        (''GapToFastestRacePace'', NA)])]\<rparr>"
  by code_simp

text \<open>
  C7. A driver whose status classifies to Lapped and who has no quick lap in the race has
  no mean quick-lap pace, and the reconstructed race time of that driver is the missing
  value, while the other cells of the row are still filled. The reconstructed time of
  another driver depends on the quick laps of that other driver alone. The missing value
  is the one pandas has for a float column (it does not tell NaN and absent apart); the
  rolling means leave the race time out altogether and skip a missing value of a column
  they do read.
\<close>

theorem C7_zero_quick_laps:
  "(simplify_status (Status r) = ''Lapped''
      \<and> filter (\<lambda>l. Driver l = Abbreviation r) (pick_quicklaps ls) = [] \<longrightarrow>
        avg_quicklap (pick_quicklaps ls) (Abbreviation r) = None
      \<and> compute_racetime ls (pick_quicklaps ls) wt r = None
      \<and> cell_at (race_row ls wt r) ''RaceTime'' = NA
      \<and> cell_at (race_row ls wt r) ''FinishingPosition'' = num_cell (Position r)
      \<and> cell_at (race_row ls wt r) ''FinishStatus'' = Str ''Lapped'')
 \<and> (filter (\<lambda>l. Driver l = Abbreviation r') qs = filter (\<lambda>l. Driver l = Abbreviation r') qs' \<longrightarrow>
        compute_racetime ls qs wt r' = compute_racetime ls qs' wt r')
 \<and> ''RaceTime'' \<notin> snd ` set agg_spec
 \<and> series_mean (None # xs) = series_mean xs"
proof (intro conjI impI)
  assume a: "simplify_status (Status r) = ''Lapped''
      \<and> filter (\<lambda>l. Driver l = Abbreviation r) (pick_quicklaps ls) = []"
  then have lap: "str_in ''Lap'' (py_str (Status r))" by (simp add: lapped_has_lap)
  from a show avg: "avg_quicklap (pick_quicklaps ls) (Abbreviation r) = None"
    by (simp add: avg_quicklap_def series_mean_Nil)
  show rt: "compute_racetime ls (pick_quicklaps ls) wt r = None"
    using lap avg by (simp add: compute_racetime_def Let_def fadd_None fmul_None)
  show "cell_at (race_row ls wt r) ''RaceTime'' = NA"
    using rt by (simp add: cell_at_race_row_RaceTime num_cell_def)
  show "cell_at (race_row ls wt r) ''FinishingPosition'' = num_cell (Position r)"
    by (simp add: race_row_def cell_at_def)
  show "cell_at (race_row ls wt r) ''FinishStatus'' = Str ''Lapped''"
    using a by (simp add: race_row_def cell_at_def)
next
  assume "filter (\<lambda>l. Driver l = Abbreviation r') qs = filter (\<lambda>l. Driver l = Abbreviation r') qs'"
  then show "compute_racetime ls qs wt r' = compute_racetime ls qs' wt r'"
    by (simp add: compute_racetime_def Let_def avg_quicklap_def)
next
  show "''RaceTime'' \<notin> snd ` set agg_spec"
    by (simp add: agg_spec_def)
next
  show "series_mean (None # xs) = series_mean xs" by (rule series_mean_skip)
qed

theorem C7_zero_quick_laps_witness:
  "simplify_status (Status HAM_row) = ''Lapped''
 \<and> filter (\<lambda>l. Driver l = Abbreviation HAM_row) (pick_quicklaps (laps demo_race)) = []
 \<and> compute_racetime (laps demo_race) (pick_quicklaps (laps demo_race)) (Some 5400) HAM_row = None
 \<and> map (\<lambda>row. cell_at row ''RaceTime'') (rows (projr (get_race_data demo_race)))
      = [Num 5400, Num 5420, NA, NA]"
proof -
  have h: "simplify_status (Status HAM_row) = ''Lapped''
      \<and> filter (\<lambda>l. Driver l = Abbreviation HAM_row) (pick_quicklaps (laps demo_race)) = []"
    by code_simp
  have e: "map (\<lambda>row. cell_at row ''RaceTime'') (rows (projr (get_race_data demo_race)))
      = [Num 5400, Num 5420, NA, NA]"
    by (simp add: demo_race_eval cell_at_def)
  from h e C7_zero_quick_laps [of HAM_row "laps demo_race" "Some 5400"]
  show ?thesis by blast
qed

text \<open>
  C10. The race extractor takes the first element of the selection of the rows in
  position 1. When no row of the results is in position 1 the extractor fails there with
  an \<^verbatim>\<open>IndexError\<close> and returns no table. When there is such a row the extractor returns
  a table, the leader's time is the recorded time of the first such row, and every row
  of the table is built with that time: its race time is the reconstruction from it.
\<close>

theorem C10_classified_winner:
  "((\<forall>r\<in>set (results s). Position r \<noteq> Some 1) \<longrightarrow> get_race_data s = Inl IndexError)
 \<and> ((\<exists>r\<in>set (results s). Position r = Some 1) \<longrightarrow> (\<exists>f. get_race_data s = Inr f))
 \<and> (\<forall>w ws. filter (\<lambda>r. Position r = Some 1) (results s) = w # ws \<longrightarrow>
       (\<exists>f. get_race_data s = Inr f
          \<and> winner_time (results s) = Inr (Time w)
          \<and> set (rows f) = race_row (laps s) (Time w) ` set (results s)
          \<and> (\<forall>r. cell_at (race_row (laps s) (Time w) r) ''RaceTime'' =
                 num_cell (compute_racetime (laps s) (pick_quicklaps (laps s)) (Time w) r))))"
proof (intro conjI impI allI)
  assume "\<forall>r\<in>set (results s). Position r \<noteq> Some 1"
  then have "filter (\<lambda>r. Position r = Some 1) (results s) = []"
    by (simp add: filter_empty_conv)
  then show "get_race_data s = Inl IndexError"
    by (simp add: get_race_data_def winner_time_def)
next
  assume "\<exists>r\<in>set (results s). Position r = Some 1"
  then have "filter (\<lambda>r. Position r = Some 1) (results s) \<noteq> []"
    by (simp add: filter_empty_conv)
  then show "\<exists>f. get_race_data s = Inr f"
    by (cases "filter (\<lambda>r. Position r = Some 1) (results s)")
       (simp_all add: get_race_data_def winner_time_def)
next
  fix w ws
  assume w: "filter (\<lambda>r. Position r = Some 1) (results s) = w # ws"
  then have wt: "winner_time (results s) = Inr (Time w)"
    by (simp add: winner_time_def)
  show "\<exists>f. get_race_data s = Inr f
          \<and> winner_time (results s) = Inr (Time w)
          \<and> set (rows f) = race_row (laps s) (Time w) ` set (results s)
          \<and> (\<forall>r. cell_at (race_row (laps s) (Time w) r) ''RaceTime'' =
                 num_cell (compute_racetime (laps s) (pick_quicklaps (laps s)) (Time w) r))"
    using wt by (simp add: get_race_data_def rows_sort_values cell_at_race_row_RaceTime)
qed

theorem C10_classified_winner_witness:
  "filter (\<lambda>r. Position r = Some 1) (results demo_race_no_winner) = []
 \<and> get_race_data demo_race_no_winner = Inl IndexError
 \<and> hd (results demo_race) \<in> set (results demo_race)
 \<and> Position (hd (results demo_race)) = Some 1
 \<and> (\<exists>f. get_race_data demo_race = Inr f)"
proof -
  have n: "filter (\<lambda>r. Position r = Some 1) (results demo_race_no_winner) = []"
    by code_simp
  then have n': "\<forall>r\<in>set (results demo_race_no_winner). Position r \<noteq> Some 1"
    by (simp add: filter_empty_conv)
  have w: "hd (results demo_race) \<in> set (results demo_race)"
    "Position (hd (results demo_race)) = Some 1"
    by (simp_all add: demo_race_def)
  then have w': "\<exists>r\<in>set (results demo_race). Position r = Some 1" by blast
  from n n' w w' C10_classified_winner [of demo_race_no_winner] C10_classified_winner [of demo_race]
  show ?thesis by blast
qed

section \<open>Gaps to the best of a session\<close>

lemma merged_length:
  "length fl \<le> length (concat (map (\<lambda>p. replicate (max 1 (c p)) (g p)) fl))"
  by (induction fl) auto

lemma merged_eq:
  "length (concat (map (\<lambda>p. replicate (max 1 (c p)) (g p)) fl)) = length fl \<Longrightarrow>
   concat (map (\<lambda>p. replicate (max 1 (c p)) (g p)) fl) = map g fl"
proof (induction fl)
  case Nil then show ?case by simp
next
  case (Cons a fl)
  have le: "length fl \<le> length (concat (map (\<lambda>p. replicate (max 1 (c p)) (g p)) fl))"
    by (rule merged_length)
  from Cons.prems have eq: "max 1 (c a) + length (concat (map (\<lambda>p. replicate (max 1 (c p)) (g p)) fl)) = Suc (length fl)"
    by simp
  with le have one: "max 1 (c a) = 1" and rest: "length (concat (map (\<lambda>p. replicate (max 1 (c p)) (g p)) fl)) = length fl"
    by auto
  from Cons.IH[OF rest] one show ?case by simp
qed

lemma astype_int_Inr: "astype_int xs = Inr ys \<Longrightarrow> ys = map (\<lambda>v. case v of None \<Rightarrow> 0 | Some x \<Rightarrow> \<lfloor>x\<rfloor>) xs"
  by (auto simp: astype_int_def split: if_splits)

lemma get_fp_data_rows:
  assumes "get_fp_data k s = Inr f"
  shows "\<exists>pos pace. length pos = length (fastest_laps (filter (\<lambda>l. LapTime l \<noteq> None) (laps s))) \<and>
     set (rows f) = fp_row k pace `
        set (zip (map fst (fastest_laps (filter (\<lambda>l. LapTime l \<noteq> None) (laps s))))
                 (zip (fp_gaps (fastest_laps (filter (\<lambda>l. LapTime l \<noteq> None) (laps s)))) pos))"
proof -
  let ?ls = "filter (\<lambda>l. LapTime l \<noteq> None) (laps s)"
  let ?fl = "fastest_laps ?ls"
  let ?merged = "concat (map (\<lambda>p. replicate (max 1 (length (filter (\<lambda>r. Abbreviation r = fst p) (results s)))) (fst p)) ?fl)"
  let ?pace = "groupby_mean (map (\<lambda>l. (Driver l, LapTime l)) (pick_quicklaps ?ls))"
  from assms have len: "length ?merged = length ?fl"
    by (auto simp: get_fp_data_def Let_def split: if_splits)
  then have m: "?merged = map fst ?fl" by (rule merged_eq)
  from assms len obtain pos where pos: "astype_int (rank_min (fp_gaps ?fl)) = Inr pos"
    by (auto simp: get_fp_data_def Let_def split: if_splits sum.splits)
  then have lp: "length pos = length ?fl"
    by (auto dest!: astype_int_Inr simp: rank_min_def fp_gaps_def)
  from assms len pos m have "f = sort_values (''GapToFastest_'' @ k)
                     \<lparr>cols = fp_cols k,
                      rows = map (fp_row k ?pace) (zip (map fst ?fl) (zip (fp_gaps ?fl) pos))\<rparr>"
    by (simp add: get_fp_data_def Let_def)
  then have "set (rows f) = fp_row k ?pace ` set (zip (map fst ?fl) (zip (fp_gaps ?fl) pos))"
    by (simp add: rows_sort_values)
  with lp show ?thesis by blast
qed

lemma cell_at_fp_row_gap: "cell_at (fp_row k pace (d, g, p)) (''GapToFastest_'' @ k) = num_cell g"
  by (simp add: fp_row_def cell_at_def)

lemma fst_fp_row: "fst (fp_row k pace (d, g, p)) = d"
  by (simp add: fp_row_def)

lemma fp_min_Some:
  assumes "p \<in> set fl"
  shows "\<exists>m. series_min (map (\<lambda>q. Some (snd q)) fl) = Some m \<and> m \<le> snd p"
  using assms by (intro series_min_le) auto

lemma fp_gap_nonneg:
  assumes "get_fp_data k s = Inr f" "row \<in> set (rows f)"
  shows "\<exists>g. cell_at row (''GapToFastest_'' @ k) = Num g \<and> 0 \<le> g"
proof -
  let ?fl = "fastest_laps (filter (\<lambda>l. LapTime l \<noteq> None) (laps s))"
  from get_fp_data_rows[OF assms(1)] obtain pos pace where
    rws: "set (rows f) = fp_row k pace ` set (zip (map fst ?fl) (zip (fp_gaps ?fl) pos))"
    by blast
  with assms(2) obtain d g p where
    z: "(d, g, p) \<in> set (zip (map fst ?fl) (zip (fp_gaps ?fl) pos))"
    and row: "row = fp_row k pace (d, g, p)"
    by auto
  from z have "g \<in> set (fp_gaps ?fl)"
    by (meson set_zip_leftD set_zip_rightD)
  then obtain q where q: "q \<in> set ?fl" and g: "g = fsub (Some (snd q)) (series_min (map (\<lambda>q. Some (snd q)) ?fl))"
    by (auto simp: fp_gaps_def)
  from fp_min_Some[OF q] obtain m where "series_min (map (\<lambda>q. Some (snd q)) ?fl) = Some m" "m \<le> snd q"
    by blast
  with g have g': "g = Some (snd q - m)" "0 \<le> snd q - m" by (simp_all add: fsub_Some)
  have "cell_at row (''GapToFastest_'' @ k) = num_cell g"
    unfolding row by (rule cell_at_fp_row_gap)
  with g' show ?thesis by (simp add: num_cell_def)
qed

lemma fp_gap_zero:
  assumes "get_fp_data k s = Inr f"
    and "p \<in> set (fastest_laps (filter (\<lambda>l. LapTime l \<noteq> None) (laps s)))"
    and "\<forall>q\<in>set (fastest_laps (filter (\<lambda>l. LapTime l \<noteq> None) (laps s))). snd p \<le> snd q"
  shows "\<exists>row\<in>set (rows f). fst row = fst p \<and> cell_at row (''GapToFastest_'' @ k) = Num 0"
proof -
  let ?fl = "fastest_laps (filter (\<lambda>l. LapTime l \<noteq> None) (laps s))"
  from get_fp_data_rows[OF assms(1)] obtain pos pace where
    len: "length pos = length ?fl" and
    rws: "set (rows f) = fp_row k pace ` set (zip (map fst ?fl) (zip (fp_gaps ?fl) pos))"
    by blast
  from assms(2) obtain i where i: "i < length ?fl" "?fl ! i = p"
    by (auto simp: in_set_conv_nth)
  from fp_min_Some[OF assms(2)] obtain m where m: "series_min (map (\<lambda>q. Some (snd q)) ?fl) = Some m" "m \<le> snd p"
    by blast
  from series_min_mem[OF m(1)] obtain q where "q \<in> set ?fl" "snd q = m" by auto
  with assms(3) m(2) have mp: "m = snd p" by fastforce
  have gi: "fp_gaps ?fl ! i = Some 0"
    using i m(1) mp by (simp add: fp_gaps_def fsub_Some)
  have "(fst p, Some 0, pos ! i) \<in> set (zip (map fst ?fl) (zip (fp_gaps ?fl) pos))"
    using i len gi by (auto simp: set_zip fp_gaps_def intro!: exI[of _ i])
  then have "fp_row k pace (fst p, Some 0, pos ! i) \<in> set (rows f)"
    unfolding rws by (rule imageI)
  moreover have "cell_at (fp_row k pace (fst p, Some 0, pos ! i)) (''GapToFastest_'' @ k) = Num 0"
    unfolding cell_at_fp_row_gap by (simp add: num_cell_def)
  ultimately show ?thesis
    using fst_fp_row by blast
qed

text \<open>The gap to the fastest race pace, read off the table of mean paces.\<close>

lemma lookup_num_map:
  "lookup_num (map (\<lambda>p. (fst p, h (snd p))) xs) d = (case map_of xs d of None \<Rightarrow> None | Some v \<Rightarrow> h v)"
  by (induction xs) (auto simp: lookup_num_def)

lemma race_gap_lookup:
  "lookup_num (GapToFastestRacePace ls) d =
     (case map_of (race_pace ls) d of None \<Rightarrow> None | Some v \<Rightarrow> fsub v (fastest_race_pace ls))"
  unfolding GapToFastestRacePace_def
  by (rule lookup_num_map[where h = "\<lambda>v. fsub v (fastest_race_pace ls)"])

lemma race_gap_nonneg:
  assumes "lookup_num (GapToFastestRacePace ls) d = Some g"
  shows "0 \<le> g"
proof -
  from assms obtain p m where p: "map_of (race_pace ls) d = Some (Some p)"
    and m: "fastest_race_pace ls = Some m" and g: "g = p - m"
    by (auto simp: race_gap_lookup fsub_def split: option.splits)
  from p have "Some p \<in> set (map snd (race_pace ls))"
    by (force dest: map_of_SomeD)
  with m have "m \<le> p" by (simp add: fastest_race_pace_def series_min_least)
  with g show ?thesis by simp
qed

lemma race_gap_zero:
  assumes "lookup_num (race_pace ls) d = Some p" "fastest_race_pace ls = Some p"
  shows "lookup_num (GapToFastestRacePace ls) d = Some 0"
proof -
  from assms(1) have "map_of (race_pace ls) d = Some (Some p)"
    by (auto simp: lookup_num_def split: option.splits)
  then show ?thesis by (simp add: race_gap_lookup assms(2) fsub_Some)
qed

lemma race_row_gap:
  "cell_at (race_row ls wt r) ''GapToFastestRacePace'' =
     num_cell (lookup_num (GapToFastestRacePace ls) (Abbreviation r))"
  by (simp add: race_row_def cell_at_def)

lemma get_race_data_rows:
  assumes "get_race_data s = Inr f"
  shows "\<exists>wt. set (rows f) = race_row (laps s) wt ` set (results s)"
  using assms by (auto simp: get_race_data_def rows_sort_values split: sum.splits)

text \<open>The gap to pole of a driver with a Q3 time.\<close>

lemma quali_gap:
  assumes "r \<in> set rs" "Q3 r = Some t"
  shows "\<exists>g. GapToPole rs r = Some g \<and> 0 \<le> g \<and> (pole_time rs = Some t \<longrightarrow> g = 0)"
proof -
  from assms have "Some t \<in> set (map Q3 rs)" by force
  from series_min_le[OF this] obtain m where "pole_time rs = Some m" "m \<le> t"
    by (auto simp: pole_time_def)
  with assms(2) show ?thesis
    by (simp add: GapToPole_def QualiLap_def fillna_def fsub_Some)
qed

lemma quali_rows:
  "set (rows (get_quali_data s)) = quali_row (results s) ` set (results s)"
  by (simp add: get_quali_data_def rows_sort_values)

lemma quali_row_gap: "cell_at (quali_row rs r) ''GapToPole'' = num_cell (GapToPole rs r)"
  by (simp add: quali_row_def cell_at_def)

lemma race_row_pace:
  "cell_at (race_row ls wt r) ''RacePace'' = num_cell (lookup_num (race_pace ls) (Abbreviation r))"
  by (simp add: race_row_def cell_at_def)

lemma demo_fp_eval:
  "get_fp_data ''FP1'' demo_fp =
     Inr \<lparr>cols = [''GapToFastest_FP1'', ''Position_FP1'', ''RacePace_FP1''],
          rows = [(''NOR'', [(''GapToFastest_FP1'', Num 0), (''Position_FP1'', Num 1), (''RacePace_FP1'', Num 10)]),
                  (''VER'', [(''GapToFastest_FP1'', Num 0), (''Position_FP1'', Num 1), (''RacePace_FP1'', Num 10)]),
                  (''HAM'', [(''GapToFastest_FP1'', Num (1 / 2)), (''Position_FP1'', Num 3), (''RacePace_FP1'', Num (21 / 2))])]\<rparr>"
  by code_simp

lemma demo_quali_eval:
  "get_quali_data demo_quali =
     \<lparr>cols = [''Position_Quali'', ''QualiLap'', ''GapToPole''],
      rows = [(''VER'', [(''Position_Quali'', Num 1), (''QualiLap'', Num 78), (''GapToPole'', Num 0)]),
              (''NOR'', [(''Position_Quali'', Num 2), (''QualiLap'', Num 77), (''GapToPole'', Num (- 1))])]\<rparr>"
  by code_simp

lemma demo_fp_fastest:
  "fastest_laps (filter (\<lambda>l. LapTime l \<noteq> None) (laps demo_fp)) =
     [(''HAM'', 21 / 2), (''NOR'', 10), (''VER'', 10)]"
  by code_simp

lemma demo_quali_pole: "pole_time (results demo_quali) = Some 78"
  by code_simp

text \<open>
  C4, as amended. In the table of a practice session the gap to the fastest lap is a
  number that is at least 0 for every driver, and it is exactly 0 for a driver whose
  fastest lap is the smallest of the session. In the table of a race every defined gap
  to the fastest race pace is at least 0, and it is exactly 0 for a driver whose mean
  quick-lap pace is the smallest one. In the table of a qualifying session the gap of a
  row is the driver's representative lap minus the pole time; it is at least 0 for every
  driver who set a Q3 time and exactly 0 for the driver whose Q3 time is the pole time.
  (The representative lap of a driver without a Q3 time is a Q2 or Q1 time, which can be
  below the pole time: that gap can be negative.)
\<close>

theorem C4_gap_semantics:
  "(get_fp_data k sp = Inr f \<longrightarrow>
      (\<forall>row\<in>set (rows f). \<exists>g. cell_at row (''GapToFastest_'' @ k) = Num g \<and> 0 \<le> g)
    \<and> (\<forall>p\<in>set (fastest_laps (filter (\<lambda>l. LapTime l \<noteq> None) (laps sp))).
          (\<forall>q\<in>set (fastest_laps (filter (\<lambda>l. LapTime l \<noteq> None) (laps sp))). snd p \<le> snd q) \<longrightarrow>
          (\<exists>row\<in>set (rows f). fst row = fst p \<and> cell_at row (''GapToFastest_'' @ k) = Num 0)))
 \<and> (get_race_data sr = Inr f' \<longrightarrow>
      (\<forall>row\<in>set (rows f'). \<forall>g. cell_at row ''GapToFastestRacePace'' = Num g \<longrightarrow> 0 \<le> g)
    \<and> (\<forall>row\<in>set (rows f'). \<forall>p. cell_at row ''RacePace'' = Num p \<and> fastest_race_pace (laps sr) = Some p \<longrightarrow>
          cell_at row ''GapToFastestRacePace'' = Num 0))
 \<and> (\<forall>row\<in>set (rows (get_quali_data sq)). \<exists>r\<in>set (results sq).
        fst row = Abbreviation r \<and> cell_at row ''GapToPole'' = num_cell (GapToPole (results sq) r))
 \<and> (\<forall>r\<in>set (results sq). \<forall>t. Q3 r = Some t \<longrightarrow>
        (\<exists>g. GapToPole (results sq) r = Some g \<and> 0 \<le> g \<and> (pole_time (results sq) = Some t \<longrightarrow> g = 0)))"
proof (intro conjI impI ballI allI)
  fix row assume "get_fp_data k sp = Inr f" "row \<in> set (rows f)"
  then show "\<exists>g. cell_at row (''GapToFastest_'' @ k) = Num g \<and> 0 \<le> g"
    by (rule fp_gap_nonneg)
next
  fix p
  assume "get_fp_data k sp = Inr f"
    "p \<in> set (fastest_laps (filter (\<lambda>l. LapTime l \<noteq> None) (laps sp)))"
    "\<forall>q\<in>set (fastest_laps (filter (\<lambda>l. LapTime l \<noteq> None) (laps sp))). snd p \<le> snd q"
  then show "\<exists>row\<in>set (rows f). fst row = fst p \<and> cell_at row (''GapToFastest_'' @ k) = Num 0"
    by (rule fp_gap_zero)
next
  fix row g
  assume a: "get_race_data sr = Inr f'" "row \<in> set (rows f')" "cell_at row ''GapToFastestRacePace'' = Num g"
  from get_race_data_rows[OF a(1)] a(2) obtain wt r where "row = race_row (laps sr) wt r" by auto
  with a(3) have "lookup_num (GapToFastestRacePace (laps sr)) (Abbreviation r) = Some g"
    by (simp add: race_row_gap num_cell_Num)
  then show "0 \<le> g" by (rule race_gap_nonneg)
next
  fix row p
  assume a: "get_race_data sr = Inr f'" "row \<in> set (rows f')"
    "cell_at row ''RacePace'' = Num p \<and> fastest_race_pace (laps sr) = Some p"
  from get_race_data_rows[OF a(1)] a(2) obtain wt r where row: "row = race_row (laps sr) wt r" by auto
  with a(3) have "lookup_num (race_pace (laps sr)) (Abbreviation r) = Some p"
    by (simp add: race_row_pace num_cell_Num)
  with a(3) have "lookup_num (GapToFastestRacePace (laps sr)) (Abbreviation r) = Some 0"
    by (simp add: race_gap_zero)
  then show "cell_at row ''GapToFastestRacePace'' = Num 0"
    by (simp add: row race_row_gap num_cell_def)
next
  fix row assume "row \<in> set (rows (get_quali_data sq))"
  then obtain r where "r \<in> set (results sq)" "row = quali_row (results sq) r"
    by (auto simp: quali_rows)
  then show "\<exists>r\<in>set (results sq).
        fst row = Abbreviation r \<and> cell_at row ''GapToPole'' = num_cell (GapToPole (results sq) r)"
    by (auto simp: quali_row_gap) (auto simp: quali_row_def)
next
  fix r t assume "r \<in> set (results sq)" "Q3 r = Some t"
  then show "\<exists>g. GapToPole (results sq) r = Some g \<and> 0 \<le> g \<and> (pole_time (results sq) = Some t \<longrightarrow> g = 0)"
    by (rule quali_gap)
qed

theorem C4_gap_semantics_witness:
  "(\<exists>f. get_fp_data ''FP1'' demo_fp = Inr f
      \<and> (\<exists>row. row \<in> set (rows f) \<and> fst row = ''NOR''
            \<and> cell_at row ''GapToFastest_FP1'' = Num 0))
 \<and> hd (results demo_quali) \<in> set (results demo_quali)
 \<and> Q3 (hd (results demo_quali)) = Some 78
 \<and> pole_time (results demo_quali) = Some 78
 \<and> GapToPole (results demo_quali) (hd (results demo_quali)) = Some 0"
proof -
  let ?F = "\<lparr>cols = [''GapToFastest_FP1'', ''Position_FP1'', ''RacePace_FP1''],
          rows = [(''NOR'', [(''GapToFastest_FP1'', Num 0), (''Position_FP1'', Num 1), (''RacePace_FP1'', Num 10)]),
                  (''VER'', [(''GapToFastest_FP1'', Num 0), (''Position_FP1'', Num 1), (''RacePace_FP1'', Num 10)]),
                  (''HAM'', [(''GapToFastest_FP1'', Num (1 / 2)), (''Position_FP1'', Num 3), (''RacePace_FP1'', Num (21 / 2))])]\<rparr>"
  note inst = C4_gap_semantics [of "''FP1''" demo_fp ?F demo_race "projr (get_race_data demo_race)" demo_quali]
  have e: "get_fp_data ''FP1'' demo_fp = Inr ?F" by (rule demo_fp_eval)
  from inst e have
    "\<forall>p\<in>set (fastest_laps (filter (\<lambda>l. LapTime l \<noteq> None) (laps demo_fp))).
          (\<forall>q\<in>set (fastest_laps (filter (\<lambda>l. LapTime l \<noteq> None) (laps demo_fp))). snd p \<le> snd q) \<longrightarrow>
          (\<exists>row\<in>set (rows ?F). fst row = fst p \<and> cell_at row (''GapToFastest_'' @ ''FP1'') = Num 0)"
    by blast
  then have "\<exists>row\<in>set (rows ?F). fst row = fst (''NOR'', 10::real) \<and> cell_at row (''GapToFastest_'' @ ''FP1'') = Num 0"
    unfolding demo_fp_fastest by simp
  then have fp: "\<exists>row. row \<in> set (rows ?F) \<and> fst row = ''NOR''
            \<and> cell_at row ''GapToFastest_FP1'' = Num 0"
    by (simp add: Bex_def)
  have q: "hd (results demo_quali) \<in> set (results demo_quali)"
    "Q3 (hd (results demo_quali)) = Some 78"
    by (simp_all add: demo_quali_def)
  from inst q have
    "\<exists>g. GapToPole (results demo_quali) (hd (results demo_quali)) = Some g \<and> 0 \<le> g
        \<and> (pole_time (results demo_quali) = Some 78 \<longrightarrow> g = 0)"
    by blast
  with demo_quali_pole have "GapToPole (results demo_quali) (hd (results demo_quali)) = Some 0"
    by auto
  with e fp q demo_quali_pole show ?thesis by blast
qed

theorem C4_counterexample:
  "map (\<lambda>row. (fst row, cell_at row ''GapToPole'')) (rows (get_quali_data demo_quali))
     = [(''VER'', Num 0), (''NOR'', Num (- 1))]"
  by (simp add: demo_quali_eval cell_at_def)

section \<open>Ranks\<close>

lemma rank_min_nth:
  "i < length xs \<Longrightarrow> rank_min xs ! i =
     (case xs ! i of None \<Rightarrow> None
      | Some x \<Rightarrow> Some (1 + real (length (filter (\<lambda>y. y < x) (dropna xs)))))"
  by (simp add: rank_min_def)

lemma rank_min_desc_nth:
  "i < length xs \<Longrightarrow> rank_min_desc xs ! i =
     (case xs ! i of None \<Rightarrow> None
      | Some x \<Rightarrow> Some (1 + real (length (filter (\<lambda>y. x < y) (dropna xs)))))"
  by (simp add: rank_min_desc_def)

lemma length_filter_split:
  "(\<And>z. z \<in> set vs \<Longrightarrow> P z \<longleftrightarrow> (Q z \<or> R z)) \<Longrightarrow> (\<And>z. z \<in> set vs \<Longrightarrow> \<not> (Q z \<and> R z)) \<Longrightarrow>
   length (filter P vs) = length (filter Q vs) + length (filter R vs)"
  by (induction vs) auto

lemma below_next:
  fixes x y :: real
  assumes "x < y" "\<forall>z\<in>set vs. \<not> (x < z \<and> z < y)"
  shows "length (filter (\<lambda>z. z < y) vs) = length (filter (\<lambda>z. z < x) vs) + length (filter (\<lambda>z. z = x) vs)"
  using assms by (intro length_filter_split) force+

lemma above_next:
  fixes x y :: real
  assumes "y < x" "\<forall>z\<in>set vs. \<not> (y < z \<and> z < x)"
  shows "length (filter (\<lambda>z. y < z) vs) = length (filter (\<lambda>z. x < z) vs) + length (filter (\<lambda>z. z = x) vs)"
  using assms by (intro length_filter_split) force+

lemma first_position_sorted:
  fixes x :: real
  assumes "x \<in> set vs"
  shows "sort vs ! length (filter (\<lambda>y. y < x) vs) = x
       \<and> (\<forall>m < length (filter (\<lambda>y. y < x) vs). sort vs ! m < x)
       \<and> length (filter (\<lambda>y. y < x) vs) < length vs"
proof -
  let ?ys = "sort vs"
  let ?P = "\<lambda>y. y < x"
  let ?k = "length (takeWhile ?P ?ys)"
  have srt: "sorted ?ys" by simp
  from assms have "x \<in> set ?ys" by simp
  then obtain idx where idx: "idx < length ?ys" "?ys ! idx = x"
    unfolding in_set_conv_nth by blast
  have kidx: "?k \<le> idx"
  proof (rule ccontr)
    assume "\<not> ?k \<le> idx"
    then have "idx < ?k" by simp
    then have "takeWhile ?P ?ys ! idx \<in> set (takeWhile ?P ?ys)" by (rule nth_mem)
    moreover have "takeWhile ?P ?ys ! idx = ?ys ! idx" using \<open>idx < ?k\<close> by (rule takeWhile_nth)
    ultimately have "?P (?ys ! idx)" by (auto dest: set_takeWhileD)
    with idx show False by simp
  qed
  with idx have klt: "?k < length ?ys" by simp
  then have "\<not> ?P (?ys ! ?k)" by (rule nth_length_takeWhile)
  moreover have "?ys ! ?k \<le> ?ys ! idx" using srt kidx idx(1) by (rule sorted_nth_mono)
  ultimately have at: "?ys ! ?k = x" using idx by simp
  have before: "\<forall>m < ?k. ?ys ! m < x"
  proof (intro allI impI)
    fix m assume m: "m < ?k"
    then have "takeWhile ?P ?ys ! m \<in> set (takeWhile ?P ?ys)" by (rule nth_mem)
    moreover have "takeWhile ?P ?ys ! m = ?ys ! m" using m by (rule takeWhile_nth)
    ultimately show "?ys ! m < x" by (auto dest: set_takeWhileD)
  qed
  have tw: "takeWhile ?P ?ys = filter ?P ?ys"
  proof (rule takeWhile_eq_filter)
    fix z assume z: "z \<in> set (dropWhile ?P ?ys)"
    then obtain n where n: "n < length (dropWhile ?P ?ys)" "dropWhile ?P ?ys ! n = z"
      by (auto simp: in_set_conv_nth)
    have "dropWhile ?P ?ys = drop ?k ?ys" by (simp add: dropWhile_eq_drop)
    with n have zn: "z = ?ys ! (?k + n)" and b: "?k + n < length ?ys" by auto
    have "?ys ! ?k \<le> ?ys ! (?k + n)" using srt _ b by (rule sorted_nth_mono) simp
    with at zn show "\<not> z < x" by simp
  qed
  have "?k = length (filter ?P vs)"
    unfolding tw by (simp add: filter_sort)
  with at before klt show ?thesis by simp
qed

lemma filter_insort_by:
  "length (filter P (insort_by le x ys)) = length (filter P (x # ys))"
  by (induction ys) auto

lemma filter_sort_by: "length (filter P (sort_by le xs)) = length (filter P xs)"
  by (induction xs) (simp_all add: sort_by_def filter_insort_by)

lemma filter_rows_sort_values:
  "length (filter P (rows (sort_values c f))) = length (filter P (rows f))"
  by (simp add: sort_values_def filter_sort_by)

lemma filter_zip_mid:
  "length ds = length gs \<Longrightarrow> length ps = length gs \<Longrightarrow>
   length (filter (\<lambda>z. Q (fst (snd z))) (zip ds (zip gs ps))) = length (filter Q gs)"
proof (induction gs arbitrary: ds ps)
  case Nil
  then show ?case by simp
next
  case (Cons g gs)
  then obtain d ds' p ps' where "ds = d # ds'" "ps = p # ps'"
    by (cases ds; cases ps) auto
  with Cons show ?case by simp
qed

lemma filter_dropna:
  "length (filter (\<lambda>g. case g of Some y \<Rightarrow> Q y | None \<Rightarrow> False) gs) = length (filter Q (dropna gs))"
  by (induction gs) (auto simp: dropna_def split: option.splits)

lemma rank_min_pos:
  assumes "astype_int (rank_min vs) = Inr pos" "(d, Some x, p) \<in> set (zip ds (zip vs pos))"
  shows "real_of_int p = 1 + real (length (filter (\<lambda>y. y < x) (dropna vs)))"
proof -
  from assms(2) have "(Some x, p) \<in> set (zip vs pos)" by (rule set_zip_rightD)
  then obtain i where i: "i < length vs" "i < length pos" "vs ! i = Some x" "pos ! i = p"
    by (auto simp: set_zip)
  from astype_int_Inr[OF assms(1)] i show ?thesis
    by (simp add: rank_min_nth)
qed

lemma rank_min_desc_pos:
  assumes "astype_int (rank_min_desc vs) = Inr pos" "(d, p) \<in> set (zip ds pos)" "length ds = length vs"
    "\<And>i. i < length vs \<Longrightarrow> vs ! i = Some (h (ds ! i))"
  shows "real_of_int p = 1 + real (length (filter (\<lambda>y. h d < y) (dropna vs)))"
proof -
  from assms(2) obtain i where i: "i < length ds" "i < length pos" "ds ! i = d" "pos ! i = p"
    by (auto simp: set_zip)
  with assms(3,4) have "vs ! i = Some (h d)" "i < length vs" by auto
  with astype_int_Inr[OF assms(1)] i show ?thesis
    by (simp add: rank_min_desc_nth)
qed

lemma fp_position_rank:
  assumes "get_fp_data k s = Inr f" "row \<in> set (rows f)" "cell_at row (''GapToFastest_'' @ k) = Num g"
  shows "cell_at row (''Position_'' @ k) =
           Num (1 + real (length (filter
                  (\<lambda>r'. case cell_at r' (''GapToFastest_'' @ k) of Num y \<Rightarrow> y < g | _ \<Rightarrow> False)
                  (rows f))))"
proof -
  let ?ls = "filter (\<lambda>l. LapTime l \<noteq> None) (laps s)"
  let ?fl = "fastest_laps ?ls"
  let ?merged = "concat (map (\<lambda>p. replicate (max 1 (length (filter (\<lambda>r. Abbreviation r = fst p) (results s)))) (fst p)) ?fl)"
  let ?pace = "groupby_mean (map (\<lambda>l. (Driver l, LapTime l)) (pick_quicklaps ?ls))"
  let ?P = "\<lambda>r'. case cell_at r' (''GapToFastest_'' @ k) of Num y \<Rightarrow> y < g | _ \<Rightarrow> False"
  from assms(1) have len: "length ?merged = length ?fl"
    by (auto simp: get_fp_data_def Let_def split: if_splits)
  then have m: "?merged = map fst ?fl" by (rule merged_eq)
  from assms(1) len obtain pos where pos: "astype_int (rank_min (fp_gaps ?fl)) = Inr pos"
    by (auto simp: get_fp_data_def Let_def split: if_splits sum.splits)
  then have lp: "length pos = length (fp_gaps ?fl)"
    by (auto dest!: astype_int_Inr simp: rank_min_def)
  have lg: "length (map fst ?fl) = length (fp_gaps ?fl)" by (simp add: fp_gaps_def)
  let ?Z = "zip (map fst ?fl) (zip (fp_gaps ?fl) pos)"
  from assms(1) len pos m have f: "f = sort_values (''GapToFastest_'' @ k)
                     \<lparr>cols = fp_cols k, rows = map (fp_row k ?pace) ?Z\<rparr>"
    by (simp add: get_fp_data_def Let_def)
  have cnt: "length (filter ?P (rows f)) = length (filter (\<lambda>y. y < g) (dropna (fp_gaps ?fl)))"
  proof -
    have "length (filter ?P (rows f)) = length (filter ?P (map (fp_row k ?pace) ?Z))"
      unfolding f by (simp add: filter_rows_sort_values)
    also have "\<dots> = length (filter (\<lambda>z. case fst (snd z) of Some y \<Rightarrow> y < g | None \<Rightarrow> False) ?Z)"
    proof -
      have "\<And>z. ?P (fp_row k ?pace z) = (case fst (snd z) of Some y \<Rightarrow> y < g | None \<Rightarrow> False)"
      proof -
        fix z :: "string \<times> num \<times> int"
        obtain d g' p where z: "z = (d, g', p)" by (cases z)
        have "cell_at (fp_row k ?pace (d, g', p)) (''GapToFastest_'' @ k) = num_cell g'"
          by (rule cell_at_fp_row_gap)
        then show "?P (fp_row k ?pace z) = (case fst (snd z) of Some y \<Rightarrow> y < g | None \<Rightarrow> False)"
          unfolding z by (simp add: num_cell_def split: option.splits)
      qed
      then show ?thesis by (simp add: filter_map comp_def)
    qed
    also have "\<dots> = length (filter (\<lambda>v. case v of Some y \<Rightarrow> y < g | None \<Rightarrow> False) (fp_gaps ?fl))"
      using lg lp by (rule filter_zip_mid)
    also have "\<dots> = length (filter (\<lambda>y. y < g) (dropna (fp_gaps ?fl)))"
      by (rule filter_dropna)
    finally show ?thesis .
  qed
  from assms(2) f obtain d g' p where z: "(d, g', p) \<in> set ?Z" and row: "row = fp_row k ?pace (d, g', p)"
    by (auto simp: rows_sort_values)
  have "cell_at row (''GapToFastest_'' @ k) = num_cell g'"
    unfolding row by (rule cell_at_fp_row_gap)
  with assms(3) have g': "g' = Some g" by (metis num_cell_Num)
  from rank_min_pos[OF pos z[unfolded g']] have p: "real_of_int p = 1 + real (length (filter (\<lambda>y. y < g) (dropna (fp_gaps ?fl))))" .
  have "cell_at row (''Position_'' @ k) = Num (of_int p)"
    unfolding row by (simp add: fp_row_def cell_at_def)
  with p cnt show ?thesis by simp
qed

lemma standings_position_rank:
  assumes "get_driver_standings e N = Inr f" "row \<in> set (rows f)" "cell_at row ''Points'' = Num t"
  shows "cell_at row ''ChampPosition'' =
           Num (1 + real (length (filter
                  (\<lambda>r'. case cell_at r' ''Points'' of Num y \<Rightarrow> t < y | _ \<Rightarrow> False)
                  (rows f))))"
proof -
  let ?P = "\<lambda>r'. case cell_at r' ''Points'' of Num y \<Rightarrow> t < y | _ \<Rightarrow> False"
  from assms(1) obtain wide pos where
    pos: "astype_int (rank_min_desc (map (\<lambda>p. Some (snd p)) wide)) = Inr pos"
    and f: "f = sort_values ''ChampPosition''
                  \<lparr>cols = [''Points'', ''ChampPosition''], rows = map standings_row (zip wide pos)\<rparr>"
    by (auto simp: get_driver_standings_def Let_def split: sum.splits if_splits)
  let ?vs = "map (\<lambda>p. Some (snd p)) wide"
  have lp: "length pos = length wide"
    using astype_int_Inr[OF pos] by (simp add: rank_min_desc_def)
  have cnt: "length (filter ?P (rows f)) = length (filter (\<lambda>y. t < y) (dropna ?vs))"
  proof -
    have "length (filter ?P (rows f)) = length (filter ?P (map standings_row (zip wide pos)))"
      unfolding f by (simp add: filter_rows_sort_values)
    also have "\<dots> = length (filter (\<lambda>z. t < snd (fst z)) (zip wide pos))"
      by (simp add: filter_map comp_def standings_row_def cell_at_def case_prod_unfold)
    also have "\<dots> = length (filter (\<lambda>w. t < snd w) (map fst (zip wide pos)))"
      by (simp add: filter_map comp_def)
    also have "\<dots> = length (filter (\<lambda>w. t < snd w) wide)"
      using lp by simp
    also have "\<dots> = length (filter (\<lambda>y. t < y) (dropna ?vs))"
      by (induction wide) (simp_all add: dropna_def)
    finally show ?thesis .
  qed
  from assms(2) f obtain w p where z: "(w, p) \<in> set (zip wide pos)" and row: "row = standings_row (w, p)"
    by (auto simp: rows_sort_values)
  have pts: "cell_at row ''Points'' = Num (snd w)"
    unfolding row by (simp add: standings_row_def cell_at_def case_prod_unfold)
  with assms(3) have t: "snd w = t" by simp
  have "real_of_int p = 1 + real (length (filter (\<lambda>y. snd w < y) (dropna ?vs)))"
    using pos z by (rule rank_min_desc_pos) simp_all
  moreover have "cell_at row ''ChampPosition'' = Num (of_int p)"
    unfolding row by (simp add: standings_row_def cell_at_def case_prod_unfold)
  ultimately show ?thesis using cnt t by simp
qed

text \<open>
  C6. The practice position is pandas' rank of method \<^verbatim>\<open>min\<close> over the gaps, ascending,
  and the championship position the one over the total points, descending. Equal values
  get equal ranks. The ascending rank of a value is one more than the number of smaller
  values, which is the first place the value takes in sorted order: the smallest rank it
  would get without ties. The rank of the next distinct value is the rank of the tied
  values plus their number, ascending and descending alike. In the table of a practice
  session the position of a row is one more than the number of rows with a smaller gap,
  and in the standings the championship position of a row is one more than the number of
  rows with more points. The times 10.0, 10.0, 10.5 get the ranks 1, 1, 3.
\<close>

theorem C6_rank_ties:
  "(\<forall>i<length xs. \<forall>j<length xs. xs ! i = xs ! j \<longrightarrow>
       rank_min xs ! i = rank_min xs ! j \<and> rank_min_desc xs ! i = rank_min_desc xs ! j)
 \<and> (\<forall>i<length xs. \<forall>x. xs ! i = Some x \<longrightarrow>
       rank_min xs ! i = Some (1 + real (length (filter (\<lambda>y. y < x) (dropna xs))))
     \<and> sort (dropna xs) ! length (filter (\<lambda>y. y < x) (dropna xs)) = x
     \<and> (\<forall>m < length (filter (\<lambda>y. y < x) (dropna xs)). sort (dropna xs) ! m < x))
 \<and> (\<forall>i<length xs. \<forall>j<length xs. \<forall>x y.
       xs ! i = Some x \<and> xs ! j = Some y \<and> x < y \<and> (\<forall>z\<in>set (dropna xs). \<not> (x < z \<and> z < y)) \<longrightarrow>
       (\<exists>a. rank_min xs ! i = Some a
          \<and> rank_min xs ! j = Some (a + real (length (filter (\<lambda>z. z = x) (dropna xs))))))
 \<and> (\<forall>i<length xs. \<forall>j<length xs. \<forall>x y.
       xs ! i = Some x \<and> xs ! j = Some y \<and> y < x \<and> (\<forall>z\<in>set (dropna xs). \<not> (y < z \<and> z < x)) \<longrightarrow>
       (\<exists>a. rank_min_desc xs ! i = Some a
          \<and> rank_min_desc xs ! j = Some (a + real (length (filter (\<lambda>z. z = x) (dropna xs))))))
 \<and> (get_fp_data k s = Inr f \<longrightarrow>
       (\<forall>row\<in>set (rows f). \<forall>g. cell_at row (''GapToFastest_'' @ k) = Num g \<longrightarrow>
          cell_at row (''Position_'' @ k) =
            Num (1 + real (length (filter
                   (\<lambda>r'. case cell_at r' (''GapToFastest_'' @ k) of Num y \<Rightarrow> y < g | _ \<Rightarrow> False)
                   (rows f))))))
 \<and> (get_driver_standings e N = Inr f' \<longrightarrow>
       (\<forall>row\<in>set (rows f'). \<forall>t. cell_at row ''Points'' = Num t \<longrightarrow>
          cell_at row ''ChampPosition'' =
            Num (1 + real (length (filter
                   (\<lambda>r'. case cell_at r' ''Points'' of Num y \<Rightarrow> t < y | _ \<Rightarrow> False)
                   (rows f'))))))
 \<and> rank_min [Some 10, Some 10, Some (21 / 2)] = [Some 1, Some 1, Some 3]"
proof (intro conjI allI impI ballI)
  fix row g
  assume "get_fp_data k s = Inr f" "row \<in> set (rows f)"
    "cell_at row (''GapToFastest_'' @ k) = Num g"
  then show "cell_at row (''Position_'' @ k) =
            Num (1 + real (length (filter
                   (\<lambda>r'. case cell_at r' (''GapToFastest_'' @ k) of Num y \<Rightarrow> y < g | _ \<Rightarrow> False)
                   (rows f))))"
    by (rule fp_position_rank)
next
  fix row t
  assume "get_driver_standings e N = Inr f'" "row \<in> set (rows f')"
    "cell_at row ''Points'' = Num t"
  then show "cell_at row ''ChampPosition'' =
            Num (1 + real (length (filter
                   (\<lambda>r'. case cell_at r' ''Points'' of Num y \<Rightarrow> t < y | _ \<Rightarrow> False)
                   (rows f'))))"
    by (rule standings_position_rank)
next
  fix i j assume "i < length xs" "j < length xs" "xs ! i = xs ! j"
  then show "rank_min xs ! i = rank_min xs ! j" by (simp add: rank_min_nth)
next
  fix i j assume "i < length xs" "j < length xs" "xs ! i = xs ! j"
  then show "rank_min_desc xs ! i = rank_min_desc xs ! j" by (simp add: rank_min_desc_nth)
next
  fix i x assume a: "i < length xs" "xs ! i = Some x"
  then show "rank_min xs ! i = Some (1 + real (length (filter (\<lambda>y. y < x) (dropna xs))))"
    by (simp add: rank_min_nth)
  from a have "x \<in> set (dropna xs)" by (auto simp: set_dropna in_set_conv_nth)
  from first_position_sorted[OF this]
  show "sort (dropna xs) ! length (filter (\<lambda>y. y < x) (dropna xs)) = x"
    and "\<And>m. m < length (filter (\<lambda>y. y < x) (dropna xs)) \<Longrightarrow> sort (dropna xs) ! m < x"
    by simp_all
next
  fix i j x y
  assume a: "i < length xs" "j < length xs"
    "xs ! i = Some x \<and> xs ! j = Some y \<and> x < y \<and> (\<forall>z\<in>set (dropna xs). \<not> (x < z \<and> z < y))"
  then have "length (filter (\<lambda>z. z < y) (dropna xs)) =
             length (filter (\<lambda>z. z < x) (dropna xs)) + length (filter (\<lambda>z. z = x) (dropna xs))"
    by (intro below_next) simp_all
  with a show "\<exists>a. rank_min xs ! i = Some a
          \<and> rank_min xs ! j = Some (a + real (length (filter (\<lambda>z. z = x) (dropna xs))))"
    by (simp add: rank_min_nth)
next
  fix i j x y
  assume a: "i < length xs" "j < length xs"
    "xs ! i = Some x \<and> xs ! j = Some y \<and> y < x \<and> (\<forall>z\<in>set (dropna xs). \<not> (y < z \<and> z < x))"
  then have "length (filter (\<lambda>z. y < z) (dropna xs)) =
             length (filter (\<lambda>z. x < z) (dropna xs)) + length (filter (\<lambda>z. z = x) (dropna xs))"
    by (intro above_next) simp_all
  with a show "\<exists>a. rank_min_desc xs ! i = Some a
          \<and> rank_min_desc xs ! j = Some (a + real (length (filter (\<lambda>z. z = x) (dropna xs))))"
    by (simp add: rank_min_desc_nth)
next
  show "rank_min [Some 10, Some 10, Some (21 / 2)] = [Some 1, Some 1, Some 3]"
    by (simp add: rank_min_def dropna_def)
qed

theorem C6_rank_ties_witness:
  "rank_min [Some 10, Some 10, Some (21 / 2)] ! 0 = rank_min [Some 10, Some 10, Some (21 / 2)] ! 1
 \<and> rank_min [Some 10, Some 10, Some (21 / 2)] ! 2 = Some 3
 \<and> sort (dropna [Some 10, Some 10, Some (21 / 2)]) ! 2 = 21 / 2
 \<and> map (\<lambda>row. (fst row, cell_at row ''Position_FP1'')) (rows (projr (get_fp_data ''FP1'' demo_fp)))
      = [(''NOR'', Num 1), (''VER'', Num 1), (''HAM'', Num 3)]"
proof -
  let ?xs = "[Some 10, Some 10, Some (21 / 2 :: real)]"
  note inst = C6_rank_ties [of ?xs "''FP1''" demo_fp "projr (get_fp_data ''FP1'' demo_fp)"
                              two_round_season 2
                              "projr (get_driver_standings two_round_season 2)"]
  have d: "dropna ?xs = [10, 10, 21 / 2]" by (simp add: dropna_def)
  from inst have "\<forall>i<length ?xs. \<forall>j<length ?xs. ?xs ! i = ?xs ! j \<longrightarrow> rank_min ?xs ! i = rank_min ?xs ! j"
    by blast
  then have "0 < length ?xs \<longrightarrow> 1 < length ?xs \<longrightarrow> ?xs ! 0 = ?xs ! 1 \<longrightarrow> rank_min ?xs ! 0 = rank_min ?xs ! 1"
    by blast
  then have a: "rank_min ?xs ! 0 = rank_min ?xs ! 1" by simp
  from inst have "\<forall>i<length ?xs. \<forall>x. ?xs ! i = Some x \<longrightarrow>
       rank_min ?xs ! i = Some (1 + real (length (filter (\<lambda>y. y < x) (dropna ?xs))))
     \<and> sort (dropna ?xs) ! length (filter (\<lambda>y. y < x) (dropna ?xs)) = x
     \<and> (\<forall>m < length (filter (\<lambda>y. y < x) (dropna ?xs)). sort (dropna ?xs) ! m < x)"
    by blast
  then have "2 < length ?xs \<longrightarrow> ?xs ! 2 = Some (21 / 2) \<longrightarrow>
       rank_min ?xs ! 2 = Some (1 + real (length (filter (\<lambda>y. y < 21 / 2) (dropna ?xs))))
     \<and> sort (dropna ?xs) ! length (filter (\<lambda>y. y < 21 / 2) (dropna ?xs)) = 21 / 2"
    by blast
  then have b: "rank_min ?xs ! 2 = Some 3 \<and> sort (dropna ?xs) ! 2 = 21 / 2"
    unfolding d by simp
  have c: "map (\<lambda>row. (fst row, cell_at row ''Position_FP1'')) (rows (projr (get_fp_data ''FP1'' demo_fp)))
      = [(''NOR'', Num 1), (''VER'', Num 1), (''HAM'', Num 3)]"
    by (simp add: demo_fp_eval cell_at_def)
  from a b c show ?thesis by blast
qed

section \<open>Championship points\<close>

























lemma filter_le_upt: "N \<le> L \<Longrightarrow> filter (\<lambda>r. r \<le> N) [1 ..< Suc L] = [1 ..< Suc N]"
proof (induction L)
  case 0
  then show ?case by simp
next
  case (Suc L)
  show ?case
  proof (cases "N \<le> L")
    case True
    with Suc.IH show ?thesis by simp
  next
    case False
    with Suc.prems have N: "N = Suc L" by simp
    have "filter (\<lambda>r. r \<le> Suc L) [1 ..< Suc (Suc L)] = [1 ..< Suc (Suc L)]"
      by (rule filter_True) auto
    with N show ?thesis by simp
  qed
qed










section \<open>Assembling a round\<close>

lemma cell_at_append:
  "cell_at (k, a @ b) c = (if c \<in> fst ` set a then cell_at (k, a) c else cell_at (k, b) c)"
proof (cases "map_of a c")
  case None
  then have "c \<notin> fst ` set a" by (simp add: map_of_eq_None_iff)
  with None show ?thesis by (simp add: cell_at_def map_add_def)
next
  case (Some v)
  then have "c \<in> fst ` set a" by (metis map_of_eq_None_iff option.distinct(1))
  with Some show ?thesis by (simp add: cell_at_def)
qed

lemma cell_at_na_fill: "cell_at (k, na_fill cs) c = NA"
  by (induction cs) (auto simp: cell_at_def na_fill_def)

lemma fst_na_fill: "map fst (na_fill cs) = cs"
  by (simp add: na_fill_def comp_def)

lemma rows_of_mem: "a \<in> set (rows_of f k) \<longleftrightarrow> (k, a) \<in> set (rows f)"
  by (auto simp: rows_of_def image_iff)

lemma rows_of_Nil: "rows_of f k = [] \<longleftrightarrow> k \<notin> set (drivers_of f)"
  by (auto simp: rows_of_def drivers_of_def filter_empty_conv image_iff)

lemma row_driver: "(k, a) \<in> set (rows f) \<Longrightarrow> k \<in> set (drivers_of f)"
  by (force simp: drivers_of_def)

lemma side_of_mem: "(k, a) \<in> set (rows f) \<Longrightarrow> side_of f k a"
  by (simp add: side_of_def row_driver)

lemma side_of_na: "k \<notin> set (drivers_of f) \<Longrightarrow> side_of f k (na_fill (cols f))"
  by (simp add: side_of_def)

lemma merge_outer_rowE:
  assumes "row \<in> set (rows (merge_outer l r))"
  shows "fst row \<in> set (drivers_of l) \<union> set (drivers_of r)
       \<and> (\<exists>a b. snd row = a @ b \<and> side_of l (fst row) a \<and> side_of r (fst row) b)"
proof -
  let ?F = "\<lambda>k. let ls = rows_of l k; rs = rows_of r k
               in if rs = [] then map (\<lambda>a. (k, a @ na_fill (cols r))) ls
                  else if ls = [] then map (\<lambda>b. (k, na_fill (cols l) @ b)) rs
                  else concat (map (\<lambda>a. map (\<lambda>b. (k, a @ b)) rs) ls)"
  from assms obtain k where k: "k \<in> set (drivers_of l) \<union> set (drivers_of r)" and row: "row \<in> set (?F k)"
    by (auto simp: merge_outer_def)
  have "fst row = k \<and> (\<exists>a b. snd row = a @ b \<and> side_of l k a \<and> side_of r k b)"
  proof (cases "rows_of r k = []")
    case True
    with row obtain a where "a \<in> set (rows_of l k)" "row = (k, a @ na_fill (cols r))"
      by (auto simp: Let_def)
    with True show ?thesis
      by (auto simp: rows_of_mem rows_of_Nil intro: side_of_mem side_of_na)
  next
    case False
    show ?thesis
    proof (cases "rows_of l k = []")
      case True
      with False row obtain b where "b \<in> set (rows_of r k)" "row = (k, na_fill (cols l) @ b)"
        by (auto simp: Let_def)
      with True show ?thesis
        by (auto simp: rows_of_mem rows_of_Nil intro: side_of_mem side_of_na)
    next
      case nl: False
      with False row obtain a b where "a \<in> set (rows_of l k)" "b \<in> set (rows_of r k)" "row = (k, a @ b)"
        by (auto simp: Let_def)
      then show ?thesis
        by (auto simp: rows_of_mem intro: side_of_mem)
    qed
  qed
  with k show ?thesis by blast
qed

lemma merge_outer_rowI:
  assumes "k \<in> set (drivers_of l) \<union> set (drivers_of r)" "side_of l k a" "side_of r k b"
  shows "(k, a @ b) \<in> set (rows (merge_outer l r))"
proof -
  let ?F = "\<lambda>k. let ls = rows_of l k; rs = rows_of r k
               in if rs = [] then map (\<lambda>a. (k, a @ na_fill (cols r))) ls
                  else if ls = [] then map (\<lambda>b. (k, na_fill (cols l) @ b)) rs
                  else concat (map (\<lambda>a. map (\<lambda>b. (k, a @ b)) rs) ls)"
  have "(k, a @ b) \<in> set (?F k)"
  proof (cases "rows_of r k = []")
    case True
    then have nr: "k \<notin> set (drivers_of r)" by (simp add: rows_of_Nil)
    with assms(1) have "k \<in> set (drivers_of l)" by simp
    with assms(2) have "a \<in> set (rows_of l k)" by (simp add: side_of_def rows_of_mem)
    moreover from nr assms(3) have "b = na_fill (cols r)" by (simp add: side_of_def)
    ultimately show ?thesis using True by (simp add: Let_def)
  next
    case False
    then have "k \<in> set (drivers_of r)" by (simp add: rows_of_Nil)
    with assms(3) have b: "b \<in> set (rows_of r k)" by (simp add: side_of_def rows_of_mem)
    show ?thesis
    proof (cases "rows_of l k = []")
      case True
      then have "k \<notin> set (drivers_of l)" by (simp add: rows_of_Nil)
      with assms(2) have "a = na_fill (cols l)" by (simp add: side_of_def)
      with True False b show ?thesis by (simp add: Let_def)
    next
      case nl: False
      then have "k \<in> set (drivers_of l)" by (simp add: rows_of_Nil)
      with assms(2) have "a \<in> set (rows_of l k)" by (simp add: side_of_def rows_of_mem)
      with nl False b show ?thesis by (auto simp: Let_def)
    qed
  qed
  with assms(1) show ?thesis
    by (auto simp: merge_outer_def)
qed

lemma side_of_ex: "\<exists>a. side_of f k a"
  by (cases "k \<in> set (drivers_of f)") (auto simp: side_of_def drivers_of_def)

lemma drivers_merge_outer:
  "set (drivers_of (merge_outer l r)) = set (drivers_of l) \<union> set (drivers_of r)"
proof (intro set_eqI iffI)
  fix k assume "k \<in> set (drivers_of (merge_outer l r))"
  then obtain row where "row \<in> set (rows (merge_outer l r))" "fst row = k"
    by (auto simp: drivers_of_def)
  with merge_outer_rowE[of row l r] show "k \<in> set (drivers_of l) \<union> set (drivers_of r)"
    by simp
next
  fix k assume k: "k \<in> set (drivers_of l) \<union> set (drivers_of r)"
  obtain a b where "side_of l k a" "side_of r k b" using side_of_ex by blast
  with k have "(k, a @ b) \<in> set (rows (merge_outer l r))" by (rule merge_outer_rowI)
  then show "k \<in> set (drivers_of (merge_outer l r))"
    by (force simp: drivers_of_def)
qed

lemma cols_merge_outer: "cols (merge_outer l r) = cols l @ cols r"
  by (simp add: merge_outer_def)

lemma side_of_keys: "wf_frame f \<Longrightarrow> side_of f k a \<Longrightarrow> map fst a = cols f"
  by (auto simp: wf_frame_def side_of_def fst_na_fill split: if_splits)

lemma wf_merge_outer:
  assumes "wf_frame l" "wf_frame r"
  shows "wf_frame (merge_outer l r)"
  unfolding wf_frame_def
proof
  fix row assume "row \<in> set (rows (merge_outer l r))"
  from merge_outer_rowE[OF this] obtain a b where
    "snd row = a @ b" "side_of l (fst row) a" "side_of r (fst row) b" by blast
  with assms show "map fst (snd row) = cols (merge_outer l r)"
    by (simp add: cols_merge_outer side_of_keys)
qed

lemma side_of_carries_left:
  assumes "wf_frame f" "side_of f k a"
  shows "carries f (k, a @ b)"
proof -
  from assms have keys: "map fst a = cols f" by (rule side_of_keys)
  then have in_a: "\<And>c. c \<in> set (cols f) \<Longrightarrow> c \<in> fst ` set a" by (metis set_map)
  show ?thesis
  proof (cases "k \<in> set (drivers_of f)")
    case True
    with assms(2) have "(k, a) \<in> set (rows f)" by (simp add: side_of_def)
    moreover have "\<forall>c\<in>set (cols f). cell_at (k, a @ b) c = cell_at (k, a) c"
      using in_a by (simp add: cell_at_append)
    ultimately show ?thesis using True by (force simp: carries_def)
  next
    case False
    with assms(2) have "a = na_fill (cols f)" by (simp add: side_of_def)
    then have "\<forall>c\<in>set (cols f). cell_at (k, a @ b) c = NA"
      using in_a by (simp add: cell_at_append cell_at_na_fill)
    with False show ?thesis by (simp add: carries_def)
  qed
qed

lemma side_of_carries_right:
  assumes "wf_frame f" "side_of f k b" "set ks \<inter> set (cols f) = {}" "map fst a = ks"
  shows "carries f (k, a @ b)"
proof -
  from assms(3,4) have not_a: "\<And>c. c \<in> set (cols f) \<Longrightarrow> c \<notin> fst ` set a"
    by (metis disjoint_iff set_map)
  show ?thesis
  proof (cases "k \<in> set (drivers_of f)")
    case True
    with assms(2) have "(k, b) \<in> set (rows f)" by (simp add: side_of_def)
    moreover have "\<forall>c\<in>set (cols f). cell_at (k, a @ b) c = cell_at (k, b) c"
      using not_a by (simp add: cell_at_append)
    ultimately show ?thesis using True by (force simp: carries_def)
  next
    case False
    with assms(2) have "b = na_fill (cols f)" by (simp add: side_of_def)
    then have "\<forall>c\<in>set (cols f). cell_at (k, a @ b) c = NA"
      using not_a by (simp add: cell_at_append cell_at_na_fill)
    with False show ?thesis by (simp add: carries_def)
  qed
qed

lemma extends_merge_left:
  assumes "wf_frame l"
  shows "extends (merge_outer l r) l"
  unfolding extends_def
proof (intro conjI ballI)
  fix row assume "row \<in> set (rows (merge_outer l r))"
  from merge_outer_rowE[OF this] obtain a b where
    "snd row = a @ b" "side_of l (fst row) a" by blast
  with side_of_carries_left[OF assms, of "fst row" a b] show "carries l row"
    by (cases row) simp
qed (auto simp: cols_merge_outer drivers_merge_outer)

lemma extends_merge_right:
  assumes "wf_frame l" "wf_frame r" "set (cols l) \<inter> set (cols r) = {}"
  shows "extends (merge_outer l r) r"
  unfolding extends_def
proof (intro conjI ballI)
  fix row assume "row \<in> set (rows (merge_outer l r))"
  from merge_outer_rowE[OF this] obtain a b where
    ab: "snd row = a @ b" "side_of l (fst row) a" "side_of r (fst row) b" by blast
  from side_of_keys[OF assms(1) ab(2)] have "map fst a = cols l" .
  from side_of_carries_right[OF assms(2) ab(3) assms(3) this] ab(1) show "carries r row"
    by (cases row) simp
qed (auto simp: cols_merge_outer drivers_merge_outer)

lemma extends_refl: "extends f f"
  by (auto simp: extends_def carries_def drivers_of_def)

lemma extends_trans:
  assumes "extends Y X" "extends X f"
  shows "extends Y f"
  unfolding extends_def
proof (intro conjI ballI)
  fix row assume row: "row \<in> set (rows Y)"
  with assms(1) have cX: "carries X row" by (simp add: extends_def)
  from assms(2) have sub: "set (cols f) \<subseteq> set (cols X)" "set (drivers_of f) \<subseteq> set (drivers_of X)"
    and cf: "\<forall>r\<in>set (rows X). carries f r" by (simp_all add: extends_def)
  show "carries f row"
  proof (cases "fst row \<in> set (drivers_of X)")
    case True
    with cX obtain r where r: "r \<in> set (rows X)" "fst r = fst row"
      "\<forall>c\<in>set (cols X). cell_at row c = cell_at r c"
      by (auto simp: carries_def)
    with sub have eq: "\<forall>c\<in>set (cols f). cell_at row c = cell_at r c" by auto
    from cf r(1) have "carries f r" by simp
    with r(2) eq show ?thesis by (auto simp: carries_def)
  next
    case False
    with cX have "\<forall>c\<in>set (cols X). cell_at row c = NA" by (simp add: carries_def)
    with sub False show ?thesis by (auto simp: carries_def)
  qed
qed (use assms in \<open>auto simp: extends_def\<close>)

text \<open>The tables of the extractors are well formed, and their columns are apart.\<close>

lemma wf_sort_values: "wf_frame (sort_values c f) = wf_frame f"
  by (simp add: wf_frame_def rows_sort_values cols_sort_values)

lemma wf_placeholder: "wf_frame placeholder"
  by (simp add: wf_frame_def placeholder_def)

lemma cols_placeholder: "cols placeholder = []"
  by (simp add: placeholder_def)

lemma rows_placeholder: "rows placeholder = []"
  by (simp add: placeholder_def)

lemma wf_quali: "wf_frame (get_quali_data s)"
  unfolding get_quali_data_def wf_sort_values
  by (auto simp: wf_frame_def quali_row_def quali_cols_def)

lemma cols_quali: "cols (get_quali_data s) = quali_cols"
  by (simp add: get_quali_data_def cols_sort_values)

lemma wf_race:
  assumes "get_race_data s = Inr f"
  shows "wf_frame f"
proof -
  from assms obtain wt where
    f: "f = sort_values ''FinishingPosition''
           \<lparr>cols = race_cols, rows = map (race_row (laps s) wt) (results s)\<rparr>"
    by (auto simp: get_race_data_def split: sum.splits)
  show ?thesis
    unfolding f wf_sort_values by (auto simp: wf_frame_def race_row_def race_cols_def)
qed

lemma cols_race: "get_race_data s = Inr f \<Longrightarrow> cols f = race_cols"
  by (auto simp: get_race_data_def cols_sort_values split: sum.splits)

lemma wf_fp:
  assumes "get_fp_data k s = Inr f"
  shows "wf_frame f"
proof -
  from assms obtain pace zs where
    f: "f = sort_values (''GapToFastest_'' @ k) \<lparr>cols = fp_cols k, rows = map (fp_row k pace) zs\<rparr>"
    by (auto simp: get_fp_data_def Let_def split: sum.splits if_splits)
  show ?thesis
    unfolding f wf_sort_values by (auto simp: wf_frame_def fp_row_def fp_cols_def)
qed

lemma cols_fp: "get_fp_data k s = Inr f \<Longrightarrow> cols f = fp_cols k"
  by (auto simp: get_fp_data_def Let_def cols_sort_values split: sum.splits if_splits)

lemma wf_race_data: "wf_frame (race_data src rnd)"
  by (simp add: race_data_def wf_placeholder wf_race split: sum.splits)

lemma cols_race_data: "cols (race_data src rnd) = [] \<or> cols (race_data src rnd) = race_cols"
  by (simp add: race_data_def cols_placeholder cols_race split: sum.splits)

lemma wf_quali_data: "wf_frame (quali_data src rnd)"
  by (simp add: quali_data_def wf_placeholder wf_quali split: sum.splits)

lemma cols_quali_data: "cols (quali_data src rnd) = [] \<or> cols (quali_data src rnd) = quali_cols"
  by (simp add: quali_data_def cols_placeholder cols_quali split: sum.splits)

lemma try_fp_cases:
  "try_fp src rnd k = [] \<or> (\<exists>f. try_fp src rnd k = [f] \<and> wf_frame f \<and> cols f = fp_cols k)"
  by (simp add: try_fp_def wf_fp cols_fp split: sum.splits)

lemma fp_data_wf: "g \<in> set (fp_data src rnd) \<Longrightarrow> wf_frame g"
  using try_fp_cases[of src rnd "''FP1''"] try_fp_cases[of src rnd "''FP2''"]
        try_fp_cases[of src rnd "''FP3''"]
  by (auto simp: fp_data_def)

lemma try_fp_cols:
  "concat (map cols (try_fp src rnd k)) = [] \<or> concat (map cols (try_fp src rnd k)) = fp_cols k"
  using try_fp_cases[of src rnd k] by auto

lemma fp_data_cols:
  "\<exists>c1 c2 c3. concat (map cols (fp_data src rnd)) = c1 @ c2 @ c3
     \<and> (c1 = [] \<or> c1 = fp_cols ''FP1'') \<and> (c2 = [] \<or> c2 = fp_cols ''FP2'')
     \<and> (c3 = [] \<or> c3 = fp_cols ''FP3'')"
proof -
  have "concat (map cols (fp_data src rnd)) =
          concat (map cols (try_fp src rnd ''FP1'')) @ concat (map cols (try_fp src rnd ''FP2''))
          @ concat (map cols (try_fp src rnd ''FP3''))"
    by (simp add: fp_data_def)
  with try_fp_cols[of src rnd "''FP1''"] try_fp_cols[of src rnd "''FP2''"]
       try_fp_cols[of src rnd "''FP3''"]
  show ?thesis by blast
qed

lemma fp_data_distinct: "distinct (concat (map cols (fp_data src rnd)))"
proof -
  from fp_data_cols[of src rnd] obtain c1 c2 c3 where
    eq: "concat (map cols (fp_data src rnd)) = c1 @ c2 @ c3" and
    c: "c1 = [] \<or> c1 = fp_cols ''FP1''" "c2 = [] \<or> c2 = fp_cols ''FP2''"
       "c3 = [] \<or> c3 = fp_cols ''FP3''"
    by blast
  show ?thesis unfolding eq using c by (auto simp: fp_cols_def)
qed

lemma fp_data_disjoint:
  "set (concat (map cols (fp_data src rnd))) \<inter> (set race_cols \<union> set quali_cols) = {}"
proof -
  from fp_data_cols[of src rnd] obtain c1 c2 c3 where
    eq: "concat (map cols (fp_data src rnd)) = c1 @ c2 @ c3" and
    c: "c1 = [] \<or> c1 = fp_cols ''FP1''" "c2 = [] \<or> c2 = fp_cols ''FP2''"
       "c3 = [] \<or> c3 = fp_cols ''FP3''"
    by blast
  show ?thesis unfolding eq using c by (auto simp: fp_cols_def race_cols_def quali_cols_def)
qed

lemma race_quali_disjoint: "set race_cols \<inter> set quali_cols = {}"
  by (simp add: race_cols_def quali_cols_def)

lemma round_not_col:
  "''Round'' \<notin> set race_cols" "''Round'' \<notin> set quali_cols"
  by (simp_all add: race_cols_def quali_cols_def)

lemma round_not_fp_col: "''Round'' \<notin> set (concat (map cols (fp_data src rnd)))"
proof -
  from fp_data_cols[of src rnd] obtain c1 c2 c3 where
    eq: "concat (map cols (fp_data src rnd)) = c1 @ c2 @ c3" and
    c: "c1 = [] \<or> c1 = fp_cols ''FP1''" "c2 = [] \<or> c2 = fp_cols ''FP2''"
       "c3 = [] \<or> c3 = fp_cols ''FP3''"
    by blast
  show ?thesis unfolding eq using c by (auto simp: fp_cols_def)
qed

lemma foldl_merge_props:
  assumes "wf_frame f" "\<forall>g\<in>set rest. wf_frame g" "distinct (cols f @ concat (map cols rest))"
  shows "wf_frame (foldl merge_outer f rest)
       \<and> cols (foldl merge_outer f rest) = cols f @ concat (map cols rest)
       \<and> extends (foldl merge_outer f rest) f
       \<and> (\<forall>g\<in>set rest. extends (foldl merge_outer f rest) g)
       \<and> set (drivers_of (foldl merge_outer f rest))
           = set (drivers_of f) \<union> (\<Union>g\<in>set rest. set (drivers_of g))"
  using assms
proof (induction rest arbitrary: f)
  case Nil
  then show ?case by (simp add: extends_refl)
next
  case (Cons g rest)
  let ?m = "merge_outer f g"
  let ?X = "foldl merge_outer ?m rest"
  from Cons.prems have wfg: "wf_frame g" and dis: "set (cols f) \<inter> set (cols g) = {}" by auto
  from Cons.prems(1) wfg have wfm: "wf_frame ?m" by (rule wf_merge_outer)
  have "wf_frame ?X
       \<and> cols ?X = cols ?m @ concat (map cols rest)
       \<and> extends ?X ?m
       \<and> (\<forall>h\<in>set rest. extends ?X h)
       \<and> set (drivers_of ?X) = set (drivers_of ?m) \<union> (\<Union>h\<in>set rest. set (drivers_of h))"
    using wfm Cons.prems by (intro Cons.IH) (auto simp: cols_merge_outer)
  moreover have "extends ?m f" using Cons.prems(1) by (rule extends_merge_left)
  moreover have "extends ?m g" using Cons.prems(1) wfg dis by (rule extends_merge_right)
  ultimately show ?case
    by (auto simp: cols_merge_outer drivers_merge_outer intro: extends_trans)
qed

lemma fp_merged_props:
  assumes "\<forall>g\<in>set FS. wf_frame g" "distinct (concat (map cols FS))"
  shows "wf_frame (fp_merged FS)
       \<and> cols (fp_merged FS) = concat (map cols FS)
       \<and> (\<forall>g\<in>set FS. extends (fp_merged FS) g)
       \<and> set (drivers_of (fp_merged FS)) = (\<Union>g\<in>set FS. set (drivers_of g))"
proof (cases FS)
  case Nil
  then show ?thesis
    by (simp add: fp_merged_def wf_placeholder cols_placeholder drivers_of_def rows_placeholder)
next
  case (Cons f rest)
  with assms foldl_merge_props[of f rest] show ?thesis
    by (simp add: fp_merged_def)
qed

lemma cell_at_missing:
  assumes "wf_frame X" "row \<in> set (rows X)" "c \<notin> set (cols X)"
  shows "cell_at row c = NA"
proof -
  from assms(1,2) have "map fst (snd row) = cols X" by (simp add: wf_frame_def)
  with assms(3) have "c \<notin> fst ` set (snd row)" by (metis set_map)
  then have "map_of (snd row) c = None" by (simp add: map_of_eq_None_iff)
  then show ?thesis by (simp add: cell_at_def)
qed

lemma empty_carries:
  assumes "is_empty g" "wf_frame X" "set (cols g) \<inter> set (cols X) = {}" "row \<in> set (rows X)"
  shows "carries g row"
proof -
  from assms(1) have "drivers_of g = []" by (simp add: is_empty_def drivers_of_def)
  moreover have "\<forall>c\<in>set (cols g). cell_at row c = NA"
    using assms(2,3,4) by (auto intro!: cell_at_missing)
  ultimately show ?thesis by (simp add: carries_def)
qed

lemma cell_at_snoc:
  assumes "c \<noteq> n"
  shows "cell_at (k, a @ [(n, v)]) c = cell_at (k, a) c"
proof (cases "c \<in> fst ` set a")
  case True
  then show ?thesis by (simp add: cell_at_append)
next
  case False
  then have "map_of a c = None" by (simp add: map_of_eq_None_iff)
  then have "cell_at (k, a) c = NA" by (simp add: cell_at_def)
  moreover have "cell_at (k, [(n, v)]) c = NA" using assms by (simp add: cell_at_def)
  ultimately show ?thesis using False by (simp add: cell_at_append)
qed

lemma assign_carries:
  assumes "carries g (k, a)" "n \<notin> set (cols g)"
  shows "carries g (k, a @ [(n, v)])"
proof -
  have eq: "\<And>c. c \<in> set (cols g) \<Longrightarrow> cell_at (k, a @ [(n, v)]) c = cell_at (k, a) c"
    using assms(2) by (auto intro!: cell_at_snoc)
  show ?thesis
  proof (cases "k \<in> set (drivers_of g)")
    case True
    with assms(1) obtain r where "r \<in> set (rows g)" "fst r = k"
      "\<forall>c\<in>set (cols g). cell_at (k, a) c = cell_at r c"
      by (auto simp: carries_def)
    with eq True show ?thesis by (auto simp: carries_def)
  next
    case False
    with assms(1) eq show ?thesis by (simp add: carries_def)
  qed
qed

lemma assemble_steps:
  "assemble R Q P = (if \<not> is_empty P then merge_outer (with_quali R Q) P else with_quali R Q)"
  by (simp add: assemble_def with_quali_def Let_def)

lemma is_empty_drivers: "is_empty f \<Longrightarrow> drivers_of f = []"
  by (simp add: is_empty_def drivers_of_def)

lemma wf_with_quali: "wf_frame R \<Longrightarrow> wf_frame Q \<Longrightarrow> wf_frame (with_quali R Q)"
  by (simp add: with_quali_def wf_merge_outer)

lemma extends_with_quali: "wf_frame R \<Longrightarrow> extends (with_quali R Q) R"
  by (simp add: with_quali_def extends_merge_left extends_refl)

lemma cols_with_quali: "cols (with_quali R Q) = cols R @ (if is_empty Q then [] else cols Q)"
  by (simp add: with_quali_def cols_merge_outer)

lemma drivers_with_quali:
  "set (drivers_of (with_quali R Q)) = set (drivers_of R) \<union> set (drivers_of Q)"
  by (simp add: with_quali_def drivers_merge_outer is_empty_drivers)

lemma wf_assemble:
  "wf_frame R \<Longrightarrow> wf_frame Q \<Longrightarrow> wf_frame P \<Longrightarrow> wf_frame (assemble R Q P)"
  by (simp add: assemble_steps wf_merge_outer wf_with_quali)

lemma extends_assemble:
  "wf_frame R \<Longrightarrow> wf_frame Q \<Longrightarrow> extends (assemble R Q P) (with_quali R Q)"
  by (simp add: assemble_steps extends_merge_left extends_refl wf_with_quali)

lemma cols_assemble:
  "cols (assemble R Q P) =
     cols R @ (if is_empty Q then [] else cols Q) @ (if is_empty P then [] else cols P)"
  by (simp add: assemble_steps cols_merge_outer cols_with_quali)

lemma drivers_assemble:
  "set (drivers_of (assemble R Q P)) =
     set (drivers_of R) \<union> set (drivers_of Q) \<union> set (drivers_of P)"
  by (simp add: assemble_steps drivers_merge_outer drivers_with_quali is_empty_drivers)

lemma assemble_carries_race:
  assumes "wf_frame R" "wf_frame Q" "wf_frame P" "row \<in> set (rows (assemble R Q P))"
  shows "carries R row"
proof -
  have "extends (assemble R Q P) R"
    using extends_assemble[OF assms(1,2)] extends_with_quali[OF assms(1)]
    by (rule extends_trans)
  with assms(4) show ?thesis by (simp add: extends_def)
qed

lemma assemble_carries_quali:
  assumes "wf_frame R" "wf_frame Q" "wf_frame P"
    and "set (cols R) \<inter> set (cols Q) = {}" "set (cols P) \<inter> set (cols Q) = {}"
    and "row \<in> set (rows (assemble R Q P))"
  shows "carries Q row"
proof (cases "is_empty Q")
  case True
  then have "set (cols Q) \<inter> set (cols (assemble R Q P)) = {}"
    using assms(4,5) by (auto simp: cols_assemble)
  with True wf_assemble[OF assms(1-3)] show ?thesis
    using assms(6) by (rule empty_carries)
next
  case False
  then have "extends (with_quali R Q) Q"
    using assms(1,2,4) by (simp add: with_quali_def extends_merge_right)
  with extends_assemble[OF assms(1,2)] have "extends (assemble R Q P) Q"
    by (rule extends_trans)
  with assms(6) show ?thesis by (simp add: extends_def)
qed

lemma assemble_carries_fp:
  assumes "wf_frame R" "wf_frame Q" "wf_frame P"
    and "(set (cols R) \<union> set (cols Q)) \<inter> set (cols P) = {}"
    and "extends P g"
    and "row \<in> set (rows (assemble R Q P))"
  shows "carries g row"
proof (cases "is_empty P")
  case True
  with assms(5) have e: "is_empty g"
    by (auto simp: extends_def is_empty_def drivers_of_def)
  have "set (cols g) \<inter> set (cols (assemble R Q P)) = {}"
    using True assms(4,5) by (auto simp: extends_def cols_assemble)
  with e wf_assemble[OF assms(1-3)] show ?thesis
    using assms(6) by (rule empty_carries)
next
  case False
  have "set (cols (with_quali R Q)) \<inter> set (cols P) = {}"
    using assms(4) by (auto simp: cols_with_quali)
  with False have "extends (assemble R Q P) P"
    using wf_with_quali[OF assms(1,2)] assms(3)
    by (simp add: assemble_steps extends_merge_right)
  then have "extends (assemble R Q P) g" using assms(5) by (rule extends_trans)
  with assms(6) show ?thesis by (simp add: extends_def)
qed

lemma rows_assign_col:
  "row \<in> set (rows (assign_col n v X)) \<Longrightarrow>
     \<exists>r0\<in>set (rows X). row = (fst r0, snd r0 @ [(n, v r0)])"
  by (auto simp: assign_col_def)

lemma drivers_assign_col: "drivers_of (assign_col n v X) = drivers_of X"
  by (simp add: assign_col_def drivers_of_def comp_def)

lemma cols_assign_col: "cols (assign_col n v X) = cols X @ [n]"
  by (simp add: assign_col_def)

lemma carries_assign_col:
  assumes "\<forall>r0\<in>set (rows X). carries g r0" "n \<notin> set (cols g)" "row \<in> set (rows (assign_col n v X))"
  shows "carries g row"
proof -
  from rows_assign_col[OF assms(3)] obtain r0 where
    r0: "r0 \<in> set (rows X)" "row = (fst r0, snd r0 @ [(n, v r0)])" by blast
  with assms(1) have "carries g (fst r0, snd r0)" by simp
  then show ?thesis unfolding r0(2) using assms(2) by (rule assign_carries)
qed

lemma race_data_cols_sub: "set (cols (race_data src rnd)) \<subseteq> set race_cols"
  using cols_race_data[of src rnd] by auto

lemma quali_data_cols_sub: "set (cols (quali_data src rnd)) \<subseteq> set quali_cols"
  using cols_quali_data[of src rnd] by auto

lemma cols_round_data:
  "cols (round_data src rnd) =
       cols (race_data src rnd)
     @ (if is_empty (quali_data src rnd) then [] else cols (quali_data src rnd))
     @ (if is_empty (fp_merged (fp_data src rnd)) then []
        else concat (map cols (fp_data src rnd)))
     @ [''Round'']"
proof -
  have "cols (fp_merged (fp_data src rnd)) = concat (map cols (fp_data src rnd))"
    using fp_merged_props[of "fp_data src rnd"] by (simp add: fp_data_wf fp_data_distinct)
  then show ?thesis
    by (simp add: round_data_def cols_assign_col cols_assemble)
qed

text \<open>
  C8. The table of a round is built from the race table, merged by outer join on the
  driver with the qualifying table and then with the merged practice table (themselves
  outer joins of the practice sessions that loaded). Its drivers are the drivers of the
  race table, of the qualifying table and of every practice table together, so a driver
  of one input is never dropped. Every row carries each input: for a driver of the input
  the cells of the input's columns are those of a row of the driver there, and for a
  driver the input does not have they are missing, never zero. The columns come in the
  order race, qualifying, practice, round.
\<close>

theorem C8_round_assembly:
  "set (drivers_of (round_data src rnd)) =
       set (drivers_of (race_data src rnd)) \<union> set (drivers_of (quali_data src rnd))
     \<union> (\<Union>g\<in>set (fp_data src rnd). set (drivers_of g))
 \<and> (\<forall>row\<in>set (rows (round_data src rnd)).
        carries (race_data src rnd) row \<and> carries (quali_data src rnd) row
      \<and> (\<forall>g\<in>set (fp_data src rnd). carries g row))
 \<and> cols (round_data src rnd) =
       cols (race_data src rnd)
     @ (if is_empty (quali_data src rnd) then [] else cols (quali_data src rnd))
     @ (if is_empty (fp_merged (fp_data src rnd)) then []
        else concat (map cols (fp_data src rnd)))
     @ [''Round'']"
proof -
  let ?R = "race_data src rnd" and ?Q = "quali_data src rnd" and ?FS = "fp_data src rnd"
  let ?P = "fp_merged ?FS"
  let ?A = "assemble ?R ?Q ?P"
  have wfR: "wf_frame ?R" by (rule wf_race_data)
  have wfQ: "wf_frame ?Q" by (rule wf_quali_data)
  have fp: "wf_frame ?P \<and> cols ?P = concat (map cols ?FS)
       \<and> (\<forall>g\<in>set ?FS. extends ?P g)
       \<and> set (drivers_of ?P) = (\<Union>g\<in>set ?FS. set (drivers_of g))"
    by (rule fp_merged_props) (simp_all add: fp_data_wf fp_data_distinct)
  then have wfP: "wf_frame ?P" and colsP: "cols ?P = concat (map cols ?FS)"
    and extP: "\<forall>g\<in>set ?FS. extends ?P g"
    and drvP: "set (drivers_of ?P) = (\<Union>g\<in>set ?FS. set (drivers_of g))"
    by simp_all
  have dRQ: "set (cols ?R) \<inter> set (cols ?Q) = {}"
    using race_data_cols_sub[of src rnd] quali_data_cols_sub[of src rnd] race_quali_disjoint
    by blast
  have dP: "(set (cols ?R) \<union> set (cols ?Q)) \<inter> set (cols ?P) = {}"
    using race_data_cols_sub[of src rnd] quali_data_cols_sub[of src rnd]
          fp_data_disjoint[of src rnd] unfolding colsP by blast
  then have dPQ: "set (cols ?P) \<inter> set (cols ?Q) = {}" by blast
  have rd: "round_data src rnd = assign_col ''Round'' (\<lambda>r. Num (real rnd)) ?A"
    by (simp add: round_data_def)
  have nR: "''Round'' \<notin> set (cols ?R)"
    using race_data_cols_sub[of src rnd] round_not_col(1) by blast
  have nQ: "''Round'' \<notin> set (cols ?Q)"
    using quali_data_cols_sub[of src rnd] round_not_col(2) by blast
  have nG: "\<And>g. g \<in> set ?FS \<Longrightarrow> ''Round'' \<notin> set (cols g)"
    using round_not_fp_col[of src rnd] by auto
  have drivers: "set (drivers_of (round_data src rnd)) =
       set (drivers_of ?R) \<union> set (drivers_of ?Q) \<union> (\<Union>g\<in>set ?FS. set (drivers_of g))"
    unfolding rd drivers_assign_col drivers_assemble drvP ..
  have carry: "\<forall>row\<in>set (rows (round_data src rnd)).
        carries ?R row \<and> carries ?Q row \<and> (\<forall>g\<in>set ?FS. carries g row)"
  proof (intro ballI conjI)
    fix row assume row: "row \<in> set (rows (round_data src rnd))"
    have "\<forall>r0\<in>set (rows ?A). carries ?R r0"
      using wfR wfQ wfP by (auto intro: assemble_carries_race)
    then show "carries ?R row" using nR row[unfolded rd] by (rule carries_assign_col)
    have "\<forall>r0\<in>set (rows ?A). carries ?Q r0"
      using wfR wfQ wfP dRQ dPQ by (auto intro: assemble_carries_quali)
    then show "carries ?Q row" using nQ row[unfolded rd] by (rule carries_assign_col)
    fix g assume g: "g \<in> set ?FS"
    with extP have "extends ?P g" by simp
    then have "\<forall>r0\<in>set (rows ?A). carries g r0"
      using wfR wfQ wfP dP by (auto intro: assemble_carries_fp)
    then show "carries g row" using nG[OF g] row[unfolded rd] by (rule carries_assign_col)
  qed
  have "cols (round_data src rnd) =
       cols ?R @ (if is_empty ?Q then [] else cols ?Q)
     @ (if is_empty ?P then [] else concat (map cols ?FS)) @ [''Round'']"
    unfolding rd cols_assign_col cols_assemble colsP by simp
  with drivers carry show ?thesis by blast
qed

lemma full_source_round1_drivers:
  "drivers_of (round_data full_source 1) = [''HAM'', ''NOR'', ''STR'', ''VER'']"
  by code_simp

lemma full_source_round1_quali:
  "drivers_of (quali_data full_source 1) = [''VER'', ''NOR'']"
  "cols (quali_data full_source 1) = [''Position_Quali'', ''QualiLap'', ''GapToPole'']"
  by code_simp+

lemma full_source_round1_STR:
  "fst (rows (round_data full_source 1) ! 2) = ''STR''"
  "length (rows (round_data full_source 1)) = 4"
  "cell_at (rows (round_data full_source 1) ! 2) ''FinishingPosition'' = Num 4"
  by code_simp+

theorem C8_round_assembly_witness:
  "drivers_of (round_data full_source 1) = [''HAM'', ''NOR'', ''STR'', ''VER'']
 \<and> drivers_of (quali_data full_source 1) = [''VER'', ''NOR'']
 \<and> fst (rows (round_data full_source 1) ! 2) = ''STR''
 \<and> cell_at (rows (round_data full_source 1) ! 2) ''FinishingPosition'' = Num 4
 \<and> cell_at (rows (round_data full_source 1) ! 2) ''Position_Quali'' = NA
 \<and> cell_at (rows (round_data full_source 1) ! 2) ''GapToPole'' = NA"
proof -
  let ?row = "rows (round_data full_source 1) ! 2"
  have "2 < length (rows (round_data full_source 1))"
    by (subst full_source_round1_STR(2)) simp
  then have mem: "?row \<in> set (rows (round_data full_source 1))"
    by (rule nth_mem)
  from C8_round_assembly [of full_source 1] mem
  have "carries (quali_data full_source 1) ?row" by blast
  then have "cell_at ?row ''Position_Quali'' = NA \<and> cell_at ?row ''GapToPole'' = NA"
    unfolding carries_def full_source_round1_quali full_source_round1_STR by simp
  with full_source_round1_drivers full_source_round1_quali(1) full_source_round1_STR(1,3)
  show ?thesis by blast
qed

section \<open>A session that never loaded\<close>

lemma try_fp_unavailable: "get_session src rnd k = Inl err \<Longrightarrow> try_fp src rnd k = []"
  by (simp add: try_fp_def)

lemma fp2_cols_absent:
  assumes "get_session src rnd ''FP2'' = Inl err"
  shows "''Position_FP2'' \<notin> set (concat (map cols (fp_data src rnd)))"
proof -
  have eq: "concat (map cols (fp_data src rnd)) =
          concat (map cols (try_fp src rnd ''FP1'')) @ concat (map cols (try_fp src rnd ''FP3''))"
    using try_fp_unavailable[OF assms] by (simp add: fp_data_def)
  obtain c1 c3 where c: "concat (map cols (try_fp src rnd ''FP1'')) = c1"
    "concat (map cols (try_fp src rnd ''FP3'')) = c3"
    "c1 = [] \<or> c1 = fp_cols ''FP1''" "c3 = [] \<or> c3 = fp_cols ''FP3''"
    using try_fp_cols[of src rnd "''FP1''"] try_fp_cols[of src rnd "''FP3''"] by blast
  show ?thesis
    unfolding eq c(1,2) using c(3,4) by (auto simp: fp_cols_def)
qed

lemma round_data_no_fp2:
  assumes "get_session src rnd ''FP2'' = Inl err"
  shows "''Position_FP2'' \<notin> set (cols (round_data src rnd))"
proof -
  have c: "cols (round_data src rnd) =
       cols (race_data src rnd)
     @ (if is_empty (quali_data src rnd) then [] else cols (quali_data src rnd))
     @ (if is_empty (fp_merged (fp_data src rnd)) then []
        else concat (map cols (fp_data src rnd)))
     @ [''Round'']"
    by (rule cols_round_data)
  have r: "''Position_FP2'' \<notin> set (cols (race_data src rnd))"
    using race_data_cols_sub[of src rnd] by (auto simp: race_cols_def)
  have q: "''Position_FP2'' \<notin> set (cols (quali_data src rnd))"
    using quali_data_cols_sub[of src rnd] by (auto simp: quali_cols_def)
  from r q fp2_cols_absent[OF assms] show ?thesis unfolding c by auto
qed

lemma set_union_cols: "set (union_cols fs) = (\<Union>f\<in>set fs. set (cols f))"
  by (simp add: union_cols_def)

lemma groupby_agg_KeyError:
  "''Position_FP2'' \<notin> set (cols f) \<Longrightarrow> groupby_agg f = Inl KeyError"
  by (simp add: groupby_agg_def agg_spec_def)

lemma first_round_KeyError:
  assumes "get_session src 1 ''FP2'' = Inl err" "\<not> is_empty (round_data src 1)"
  shows "round_step src 1 init_state = Inl KeyError"
proof -
  let ?rd = "round_data src 1"
  let ?std = "\<lparr>cols = union_cols [?rd], rows = map (reindex_row (union_cols [?rd])) (rows ?rd)\<rparr>"
  have pc: "pd_concat [?rd] = Inr ?std" by (simp add: pd_concat_def)
  have ne: "\<not> is_empty ?std" using assms(2) by (simp add: is_empty_def)
  have "''Position_FP2'' \<notin> set (cols ?std)"
    using round_data_no_fp2[OF assms(1)] by (simp add: set_union_cols)
  then have "groupby_agg ?std = Inl KeyError" by (rule groupby_agg_KeyError)
  with ne have "rolling_features (ergast_api src) 1 ?std = Inl KeyError"
    by (simp add: rolling_features_def)
  with pc show ?thesis
    by (simp add: round_step_def init_state_def Let_def)
qed

text \<open>
  C3, where the code departs from it. A practice session that does not load is left out
  of the round by the \<^verbatim>\<open>try\<close> around its extractor, and the round's table is built from
  the sessions that did load. But the aggregation over the season to date names the
  columns of all three practice sessions, and it is outside every \<^verbatim>\<open>try\<close>: when the
  second practice session of round 1 does not load and the round has a row, the column
  \<^verbatim>\<open>Position_FP2\<close> does not exist in the season to date, the aggregation raises a
  \<^verbatim>\<open>KeyError\<close>, and the whole function returns no table, whatever the round limit.
\<close>

theorem C3_first_round_gap_aborts:
  "get_session src 1 ''FP2'' = Inl err \<and> \<not> is_empty (round_data src 1) \<and> 1 \<le> L \<longrightarrow>
     get_season_data_with_features src L = Inl KeyError"
proof
  assume a: "get_session src 1 ''FP2'' = Inl err \<and> \<not> is_empty (round_data src 1) \<and> 1 \<le> L"
  then have h: "get_session src 1 ''FP2'' = Inl err" "\<not> is_empty (round_data src 1)"
    by blast+
  from a have "1 < Suc L" by simp
  then have e: "[1 ..< Suc L] = 1 # [Suc 1 ..< Suc L]"
    by (rule upt_conv_Cons)
  have rs: "round_step src 1 init_state = Inl KeyError"
    using h by (rule first_round_KeyError)
  have "run_rounds src [1 ..< Suc L] init_state = Inl KeyError"
    unfolding e by (simp only: run_rounds.simps rs sum.case)
  then show "get_season_data_with_features src L = Inl KeyError"
    by (simp add: get_season_data_with_features_def season_rounds_def)
qed

lemma no_fp2_round1: "\<not> is_empty (round_data no_fp2_source 1)"
  by code_simp

lemma fp2_gap_completes: "\<not> isl (get_season_data_with_features fp2_gap_source 2)"
  by code_simp

theorem C3_first_round_gap_aborts_witness:
  "get_session no_fp2_source 1 ''FP2'' = Inl DataUnavailable
 \<and> \<not> is_empty (round_data no_fp2_source 1)
 \<and> get_season_data_with_features no_fp2_source 2 = Inl KeyError
 \<and> \<not> isl (get_season_data_with_features fp2_gap_source 2)"
proof -
  have h: "get_session no_fp2_source 1 ''FP2'' = Inl DataUnavailable"
    by (simp add: no_fp2_source_def)
  from h no_fp2_round1 C3_first_round_gap_aborts [of no_fp2_source DataUnavailable 2]
  have "get_season_data_with_features no_fp2_source 2 = Inl KeyError" by simp
  with h no_fp2_round1 fp2_gap_completes show ?thesis by blast
qed

section \<open>Causality of the rounds\<close>

lemma agree_upto_mono:
  assumes "agree_upto N a b" "M \<le> N"
  shows "agree_upto M a b"
proof -
  from assms(1) have "take N (get_race_schedule (ergast_api a)) = take N (get_race_schedule (ergast_api b))"
    by (simp add: agree_upto_def)
  then have "take M (take N (get_race_schedule (ergast_api a))) = take M (take N (get_race_schedule (ergast_api b)))"
    by (rule arg_cong)
  with assms(2) have "take M (get_race_schedule (ergast_api a)) = take M (get_race_schedule (ergast_api b))"
    by (simp add: min_def)
  with assms show ?thesis by (simp add: agree_upto_def)
qed

lemma filter_all_upt: "L \<le> N \<Longrightarrow> filter (\<lambda>r. r \<le> N) [1 ..< Suc L] = [1 ..< Suc L]"
  by (rule filter_True) auto

lemma standings_rounds_min:
  "standings_rounds e N = [1 ..< Suc (min N (length (get_race_schedule e)))]"
proof (cases "N \<le> length (get_race_schedule e)")
  case True
  then have "min N (length (get_race_schedule e)) = N" by simp
  with filter_le_upt[OF True] show ?thesis unfolding standings_rounds_def by simp
next
  case False
  then have le: "length (get_race_schedule e) \<le> N" by simp
  then have "min N (length (get_race_schedule e)) = length (get_race_schedule e)" by simp
  with filter_all_upt[OF le] show ?thesis unfolding standings_rounds_def by simp
qed

lemma round_points_cong:
  "get_race_results e r = get_race_results e' r \<Longrightarrow>
   get_sprint_results e r = get_sprint_results e' r \<Longrightarrow> round_points e r = round_points e' r"
proof -
  assume h: "get_race_results e r = get_race_results e' r"
    "get_sprint_results e r = get_sprint_results e' r"
  show ?thesis unfolding round_points_def h ..
qed

lemma collect_rounds_cong:
  "(\<And>r. r \<in> set rs \<Longrightarrow> round_points e r = round_points e' r) \<Longrightarrow>
   collect_rounds e rs = collect_rounds e' rs"
proof (induction rs)
  case Nil
  show ?case by simp
next
  case (Cons r rs)
  have h1: "round_points e r = round_points e' r" by (rule Cons.prems) simp
  have h2: "collect_rounds e rs = collect_rounds e' rs" by (rule Cons.IH, rule Cons.prems) simp
  show ?case unfolding collect_rounds.simps h1 h2 ..
qed

lemma standings_cong:
  assumes "agree_upto N a b" "r \<le> N"
  shows "get_driver_standings (ergast_api a) r = get_driver_standings (ergast_api b) r"
proof -
  let ?e = "ergast_api a" and ?e' = "ergast_api b"
  from assms have "take r (get_race_schedule ?e) = take r (get_race_schedule ?e')"
    using agree_upto_mono[OF assms] by (simp add: agree_upto_def)
  then have "length (take r (get_race_schedule ?e)) = length (take r (get_race_schedule ?e'))"
    by simp
  then have m: "min r (length (get_race_schedule ?e)) = min r (length (get_race_schedule ?e'))"
    by (simp add: min.commute)
  then have rs: "standings_rounds ?e r = standings_rounds ?e' r"
    by (simp add: standings_rounds_min)
  have "collect_rounds ?e (standings_rounds ?e r) = collect_rounds ?e' (standings_rounds ?e r)"
  proof (rule collect_rounds_cong)
    fix q assume "q \<in> set (standings_rounds ?e r)"
    then have "1 \<le> q \<and> q \<le> N" using assms(2) by (auto simp: standings_rounds_def)
    with assms(1) show "round_points ?e q = round_points ?e' q"
      by (intro round_points_cong) (simp_all add: agree_upto_def)
  qed
  then have c: "collect_rounds ?e (standings_rounds ?e r) = collect_rounds ?e' (standings_rounds ?e' r)"
    unfolding rs .
  show ?thesis unfolding get_driver_standings_def c ..
qed

lemma round_data_cong:
  assumes "\<And>k. get_session a r k = get_session b r k"
  shows "round_data a r = round_data b r"
  using assms
  by (simp add: round_data_def race_data_def quali_data_def fp_data_def try_fp_def)

lemma round_step_cong:
  assumes "agree_upto N a b" "1 \<le> r" "r \<le> N"
  shows "round_step a r st = round_step b r st"
proof -
  from assms have h1: "round_data a r = round_data b r"
    by (intro round_data_cong) (simp add: agree_upto_def)
  from assms(1,3) have h2: "get_driver_standings (ergast_api a) r = get_driver_standings (ergast_api b) r"
    by (rule standings_cong)
  show ?thesis unfolding round_step_def rolling_features_def h1 h2 ..
qed

lemma run_rounds_cong:
  assumes "agree_upto N a b" "\<And>r. r \<in> set rs \<Longrightarrow> 1 \<le> r \<and> r \<le> N"
  shows "run_rounds a rs st = run_rounds b rs st"
  using assms(2)
proof (induction rs arbitrary: st)
  case Nil
  then show ?case by simp
next
  case (Cons r rs)
  from Cons.prems[of r] have "1 \<le> r" "r \<le> N" by simp_all
  with assms(1) have h1: "round_step a r st = round_step b r st" by (rule round_step_cong)
  have h2: "\<And>st'. run_rounds a rs st' = run_rounds b rs st'"
    by (rule Cons.IH, rule Cons.prems) simp
  show ?case unfolding run_rounds.simps h1 h2 ..
qed

lemma run_rounds_append:
  "run_rounds src (xs @ ys) st =
     (case run_rounds src xs st of Inl e \<Rightarrow> Inl e | Inr st' \<Rightarrow> run_rounds src ys st')"
  by (induction xs arbitrary: st) (simp_all split: sum.splits)

lemma round_step_grows:
  "round_step src r st = Inr st' \<Longrightarrow> \<exists>b. all_rounds st' = all_rounds st @ [b]"
  by (auto simp: round_step_def Let_def split: sum.splits)

lemma run_rounds_grows:
  "run_rounds src rs st = Inr st' \<Longrightarrow>
     \<exists>bs. all_rounds st' = all_rounds st @ bs \<and> length bs = length rs"
proof (induction rs arbitrary: st)
  case Nil
  then show ?case by simp
next
  case (Cons r rs)
  from Cons.prems obtain st1 where s1: "round_step src r st = Inr st1"
    and s2: "run_rounds src rs st1 = Inr st'"
    by (auto split: sum.splits)
  from round_step_grows[OF s1] obtain b where b: "all_rounds st1 = all_rounds st @ [b]" by blast
  from Cons.IH[OF s2] obtain bs where "all_rounds st' = all_rounds st1 @ bs" "length bs = length rs"
    by blast
  with b show ?case by (intro exI[of _ "b # bs"]) simp
qed

lemma upt_split:
  assumes "N \<le> L"
  shows "[1 ..< Suc L] = [1 ..< Suc N] @ [Suc N ..< Suc L]"
proof -
  from assms have e: "Suc L = Suc N + (L - N)" by simp
  have "[1 ..< Suc N + (L - N)] = [1 ..< Suc N] @ [Suc N ..< Suc N + (L - N)]"
    by (rule upt_add_eq_append) simp
  then show ?thesis unfolding e[symmetric] .
qed

lemma season_rounds_prefix:
  assumes "season_rounds src L = Inr bs" "N \<le> L"
  shows "\<exists>pre. season_rounds src N = Inr pre \<and> length pre = N \<and> take N bs = pre"
proof -
  from assms(1) obtain st where st: "run_rounds src [1 ..< Suc L] init_state = Inr st"
    and bs: "bs = all_rounds st"
    by (auto simp: season_rounds_def split: sum.splits)
  from st upt_split[OF assms(2)] obtain st1 where
    s1: "run_rounds src [1 ..< Suc N] init_state = Inr st1"
    and s2: "run_rounds src [Suc N ..< Suc L] st1 = Inr st"
    by (auto simp: run_rounds_append split: sum.splits)
  from run_rounds_grows[OF s1] have l1: "length (all_rounds st1) = N"
    by (auto simp: init_state_def)
  from run_rounds_grows[OF s2] obtain rest where "all_rounds st = all_rounds st1 @ rest" by blast
  with l1 bs have "take N bs = all_rounds st1" by simp
  with s1 l1 show ?thesis by (simp add: season_rounds_def)
qed

lemma cell_at_reindex: "c \<in> set cs \<Longrightarrow> cell_at (reindex_row cs r) c = cell_at r c"
  by (simp add: reindex_row_def cell_at_def map_of_map_restrict)

lemma fst_reindex: "fst (reindex_row cs r) = fst r"
  by (simp add: reindex_row_def)

lemma final_rows:
  assumes "get_season_data_with_features src L = Inr t" "season_rounds src L = Inr bs"
  shows "rows t = map (reindex_row (cols t)) (concat (map rows bs))"
  using assms
  by (auto simp: get_season_data_with_features_def pd_concat_def split: if_splits)

lemma final_row_of_prefix:
  assumes "get_season_data_with_features src L = Inr t" "season_rounds src L = Inr bs"
    and "i < length (concat (map rows (take N bs)))"
  shows "rows t ! i = reindex_row (cols t) (concat (map rows (take N bs)) ! i)"
proof -
  have "concat (map rows bs) = concat (map rows (take N bs)) @ concat (map rows (drop N bs))"
    by (metis append_take_drop_id concat_append map_append)
  with assms(3) have "concat (map rows bs) ! i = concat (map rows (take N bs)) ! i"
    and "i < length (concat (map rows bs))"
    by (simp_all add: nth_append)
  then show ?thesis unfolding final_rows[OF assms(1,2)] by simp
qed

text \<open>
  C1. Let two sources agree up to round \<open>N\<close>, and let the loop over the rounds run to
  the end on both, each to a limit of at least \<open>N\<close>. Then the tables emitted for the
  rounds 1 to \<open>N\<close> (the round's rows with the rolling means, the DNF rate, the team and
  the standings attached) are the same in both runs, and they are the tables the run to
  the limit \<open>N\<close> emits: nothing of a later round, and nothing of the limit, enters them.
  In the two returned tables, which concatenate the emitted tables in round order, the
  rows of the rounds 1 to \<open>N\<close> have the same driver and the same cell under every column
  the two tables share.
\<close>

theorem C1_causality:
  "agree_upto N src src' \<and> N \<le> L \<and> N \<le> L'
     \<and> season_rounds src L = Inr bs \<and> season_rounds src' L' = Inr bs' \<longrightarrow>
       take N bs = take N bs'
     \<and> season_rounds src N = Inr (take N bs)
     \<and> (\<forall>M. 1 \<le> M \<and> M \<le> N \<longrightarrow> bs ! (M - 1) = bs' ! (M - 1))
     \<and> (\<forall>t t'. get_season_data_with_features src L = Inr t
              \<and> get_season_data_with_features src' L' = Inr t' \<longrightarrow>
            (\<forall>i < length (concat (map rows (take N bs))).
                fst (rows t ! i) = fst (rows t' ! i)
              \<and> (\<forall>c\<in>set (cols t) \<inter> set (cols t').
                    cell_at (rows t ! i) c = cell_at (rows t' ! i) c)))"
proof (intro impI)
  assume a: "agree_upto N src src' \<and> N \<le> L \<and> N \<le> L'
     \<and> season_rounds src L = Inr bs \<and> season_rounds src' L' = Inr bs'"
  then have ag: "agree_upto N src src'" and le: "N \<le> L" "N \<le> L'"
    and sr: "season_rounds src L = Inr bs" "season_rounds src' L' = Inr bs'"
    by blast+
  from season_rounds_prefix[OF sr(1) le(1)] have p: "season_rounds src N = Inr (take N bs)"
    by auto
  from season_rounds_prefix[OF sr(2) le(2)] have p': "season_rounds src' N = Inr (take N bs')"
    by auto
  have "run_rounds src [1 ..< Suc N] init_state = run_rounds src' [1 ..< Suc N] init_state"
    using ag by (rule run_rounds_cong) auto
  then have "season_rounds src N = season_rounds src' N" by (simp add: season_rounds_def)
  with p p' have eq: "take N bs = take N bs'" by simp
  have blocks: "\<forall>M. 1 \<le> M \<and> M \<le> N \<longrightarrow> bs ! (M - 1) = bs' ! (M - 1)"
  proof (intro allI impI)
    fix M assume "1 \<le> M \<and> M \<le> N"
    then have "M - 1 < N" by arith
    then have "take N bs ! (M - 1) = bs ! (M - 1)" "take N bs' ! (M - 1) = bs' ! (M - 1)"
      by simp_all
    with eq show "bs ! (M - 1) = bs' ! (M - 1)" by simp
  qed
  have final: "\<forall>t t'. get_season_data_with_features src L = Inr t
              \<and> get_season_data_with_features src' L' = Inr t' \<longrightarrow>
            (\<forall>i < length (concat (map rows (take N bs))).
                fst (rows t ! i) = fst (rows t' ! i)
              \<and> (\<forall>c\<in>set (cols t) \<inter> set (cols t').
                    cell_at (rows t ! i) c = cell_at (rows t' ! i) c))"
  proof (intro allI impI conjI ballI)
    fix t t' i
    assume g: "get_season_data_with_features src L = Inr t
              \<and> get_season_data_with_features src' L' = Inr t'"
      and i: "i < length (concat (map rows (take N bs)))"
    from g have gt: "get_season_data_with_features src L = Inr t"
      and gt': "get_season_data_with_features src' L' = Inr t'" by blast+
    have r: "rows t ! i = reindex_row (cols t) (concat (map rows (take N bs)) ! i)"
      using gt sr(1) i by (rule final_row_of_prefix)
    have r': "rows t' ! i = reindex_row (cols t') (concat (map rows (take N bs)) ! i)"
      using final_row_of_prefix[OF gt' sr(2), of i N] i unfolding eq by simp
    show "fst (rows t ! i) = fst (rows t' ! i)"
      unfolding r r' by (simp add: fst_reindex)
    fix c assume "c \<in> set (cols t) \<inter> set (cols t')"
    then show "cell_at (rows t ! i) c = cell_at (rows t' ! i) c"
      unfolding r r' by (simp add: cell_at_reindex)
  qed
  from eq p blocks final
  show "take N bs = take N bs'
     \<and> season_rounds src N = Inr (take N bs)
     \<and> (\<forall>M. 1 \<le> M \<and> M \<le> N \<longrightarrow> bs ! (M - 1) = bs' ! (M - 1))
     \<and> (\<forall>t t'. get_season_data_with_features src L = Inr t
              \<and> get_season_data_with_features src' L' = Inr t' \<longrightarrow>
            (\<forall>i < length (concat (map rows (take N bs))).
                fst (rows t ! i) = fst (rows t' ! i)
              \<and> (\<forall>c\<in>set (cols t) \<inter> set (cols t').
                    cell_at (rows t ! i) c = cell_at (rows t' ! i) c)))"
    by blast
qed

lemma full_source_runs: "\<not> isl (season_rounds full_source 2)"
  by code_simp

lemma one_round_source_runs: "\<not> isl (season_rounds one_round_source 1)"
  by code_simp

lemma sources_agree: "agree_upto 1 full_source one_round_source"
  by (simp add: agree_upto_def full_source_def one_round_source_def demo_results_def)

lemma sources_differ:
  "get_session full_source 2 ''R'' \<noteq> get_session one_round_source 2 ''R''"
  by (simp add: full_source_def one_round_source_def demo_sessions_def)

theorem C1_causality_witness:
  "agree_upto 1 full_source one_round_source
 \<and> get_session full_source 2 ''R'' \<noteq> get_session one_round_source 2 ''R''
 \<and> \<not> isl (season_rounds full_source 2) \<and> \<not> isl (season_rounds one_round_source 1)
 \<and> take 1 (projr (season_rounds full_source 2)) = take 1 (projr (season_rounds one_round_source 1))
 \<and> projr (season_rounds full_source 2) ! 0 = projr (season_rounds one_round_source 1) ! 0"
proof -
  have f: "season_rounds full_source 2 = Inr (projr (season_rounds full_source 2))"
    using full_source_runs by simp
  have g: "season_rounds one_round_source 1 = Inr (projr (season_rounds one_round_source 1))"
    using one_round_source_runs by simp
  have le: "(1::nat) \<le> 2" "(1::nat) \<le> 1" by simp_all
  from C1_causality [of 1 full_source one_round_source 2 1
                       "projr (season_rounds full_source 2)"
                       "projr (season_rounds one_round_source 1)"]
       sources_agree le f g
  have "take 1 (projr (season_rounds full_source 2)) = take 1 (projr (season_rounds one_round_source 1))
      \<and> (\<forall>M. 1 \<le> M \<and> M \<le> 1 \<longrightarrow>
            projr (season_rounds full_source 2) ! (M - 1) = projr (season_rounds one_round_source 1) ! (M - 1))"
    by blast
  then have "take 1 (projr (season_rounds full_source 2)) = take 1 (projr (season_rounds one_round_source 1))
      \<and> projr (season_rounds full_source 2) ! (1 - 1) = projr (season_rounds one_round_source 1) ! (1 - 1)"
    by blast
  with sources_agree sources_differ full_source_runs one_round_source_runs
  show ?thesis by simp
qed

end
